theory Spec2Isabelle
  imports
    Main
    "HOL-Library.Char_ord"
    "HOL-Library.List_Lexorder"
    "HOL-Library.Product_Lexorder"
    "HOL-Library.AList"
begin

section \<open>Reference resolution of the Study Bible Compendium\<close>

text \<open>
  The development embeds the reference parsers, the book resolver and the four query
  functions of \<^verbatim>\<open>sbc/search.py\<close>, \<^verbatim>\<open>sbc/context.py\<close>, \<^verbatim>\<open>sbc/parallel.py\<close> and
  \<^verbatim>\<open>sbc/loader.py\<close>.

  Conventions of the embedding:
  \<^item> a Python \<^verbatim>\<open>str\<close> is a \<^typ>\<open>string\<close> of ASCII characters; the case mappings change the
    letters A to Z and a to z only, and white space is the ASCII white space of
    \<^verbatim>\<open>str.strip\<close>; characters outside ASCII, among them the white space \<^verbatim>\<open>\x85\<close> and
    \<^verbatim>\<open>\xa0\<close> that \<^verbatim>\<open>str.strip\<close> and \<^verbatim>\<open>int\<close> also drop, are not modelled;
  \<^item> a Python \<^verbatim>\<open>int\<close> is an \<^typ>\<open>int\<close>; the limit that the interpreter may put on the
    number of digits converted between \<^verbatim>\<open>str\<close> and \<^verbatim>\<open>int\<close> is not modelled;
  \<^item> a \<^verbatim>\<open>dict\<close> whose order is observable is an association list updated with
    \<^const>\<open>AList.update\<close> (a new key goes last, an old key keeps its place); the book lookup,
    which is only read by key, is a map;
  \<^item> the table \<^verbatim>\<open>verses_normalized\<close> is the list of its rows, queried as the SQL text of the
    source says; a connection or statement that fails with \<^verbatim>\<open>sqlite3.Error\<close> is the
    database value \<open>Unavailable\<close>; an integer parameter that does not fit the 64-bit
    integer of SQLite makes \<^verbatim>\<open>execute\<close> raise \<^verbatim>\<open>OverflowError\<close>, which is not an
    \<^verbatim>\<open>sqlite3.Error\<close>;
  \<^item> a function that can raise returns a sum, the exception on the left;
  \<^item> messages written by \<^verbatim>\<open>info\<close> and \<^verbatim>\<open>warn\<close> are not part of any result.
\<close>

subsection \<open>Strings\<close>

definition is_space :: "char \<Rightarrow> bool" where
  "is_space c = (let n = (of_char c :: nat) in (9 \<le> n \<and> n \<le> 13) \<or> (28 \<le> n \<and> n \<le> 32))"

definition is_digit :: "char \<Rightarrow> bool" where
  "is_digit c = (let n = (of_char c :: nat) in 48 \<le> n \<and> n \<le> 57)"

definition digit_val :: "char \<Rightarrow> int" where
  "digit_val c = int (of_char c) - 48"

definition lower_char :: "char \<Rightarrow> char" where
  "lower_char c = (let n = (of_char c :: nat) in if 65 \<le> n \<and> n \<le> 90 then char_of (n + 32) else c)"

definition upper_char :: "char \<Rightarrow> char" where
  "upper_char c = (let n = (of_char c :: nat) in if 97 \<le> n \<and> n \<le> 122 then char_of (n - 32) else c)"

definition py_lower :: "string \<Rightarrow> string" where
  "py_lower s = map lower_char s"

definition py_upper :: "string \<Rightarrow> string" where
  "py_upper s = map upper_char s"

definition lstrip :: "string \<Rightarrow> string" where
  "lstrip s = dropWhile is_space s"

definition rstrip :: "string \<Rightarrow> string" where
  "rstrip s = rev (dropWhile is_space (rev s))"

definition strip :: "string \<Rightarrow> string" where
  "strip s = lstrip (rstrip s)"

text \<open>\<^verbatim>\<open>s.rindex(c)\<close>: the position of the last \<open>c\<close>; \<open>None\<close> stands for \<^verbatim>\<open>ValueError\<close>.\<close>

definition rindex :: "char \<Rightarrow> string \<Rightarrow> nat option" where
  "rindex c s =
     (if c \<in> set s then Some (length s - 1 - length (takeWhile (\<lambda>x. x \<noteq> c) (rev s))) else None)"

text \<open>\<^verbatim>\<open>s.split(c, 1)\<close> for a string that contains \<open>c\<close>: the parts before and after the first \<open>c\<close>.\<close>

definition split1 :: "char \<Rightarrow> string \<Rightarrow> string \<times> string" where
  "split1 c s = (takeWhile (\<lambda>x. x \<noteq> c) s, drop 1 (dropWhile (\<lambda>x. x \<noteq> c) s))"

text \<open>
  \<^verbatim>\<open>int(s)\<close>: white space around the numeral is dropped, one sign is allowed, and single
  underscores may stand between digits. \<open>None\<close> stands for \<^verbatim>\<open>ValueError\<close>. The white space
  of \<^verbatim>\<open>int\<close> is tab, line feed, vertical tab, form feed, carriage return and space; the
  separators \<^verbatim>\<open>\x1c\<close> to \<^verbatim>\<open>\x1f\<close>, which \<^verbatim>\<open>str.strip\<close> drops, are not accepted by \<^verbatim>\<open>int\<close>.
\<close>

definition is_int_space :: "char \<Rightarrow> bool" where
  "is_int_space c = (let n = (of_char c :: nat) in (9 \<le> n \<and> n \<le> 13) \<or> n = 32)"

definition int_strip :: "string \<Rightarrow> string" where
  "int_strip s = rev (dropWhile is_int_space (rev (dropWhile is_int_space s)))"

fun parse_digits :: "bool \<Rightarrow> int \<Rightarrow> string \<Rightarrow> int option" where
  "parse_digits prev acc [] = (if prev then Some acc else None)"
| "parse_digits prev acc (c # cs) =
     (if is_digit c then parse_digits True (10 * acc + digit_val c) cs
      else if c = CHR ''_'' \<and> prev then parse_digits False acc cs
      else None)"

definition py_int :: "string \<Rightarrow> int option" where
  "py_int s =
     (case int_strip s of
        [] \<Rightarrow> None
      | c # cs \<Rightarrow>
          if c = CHR ''-'' then map_option uminus (parse_digits False 0 cs)
          else if c = CHR ''+'' then parse_digits False 0 cs
          else parse_digits False 0 (c # cs))"

text \<open>\<^verbatim>\<open>str(i)\<close>, as the f-strings of the source format an integer.\<close>

fun digits_of :: "nat \<Rightarrow> string" where
  "digits_of n =
     (if n < 10 then [char_of (48 + n)] else digits_of (n div 10) @ [char_of (48 + n mod 10)])"

declare digits_of.simps [simp del]

definition py_str :: "int \<Rightarrow> string" where
  "py_str i = (if i < 0 then CHR ''-'' # digits_of (nat (- i)) else digits_of (nat i))"

subsection \<open>Reference parsers\<close>

text \<open>\<^verbatim>\<open>sbc.search._parse_reference\<close>\<close>

definition search_parse_reference :: "string \<Rightarrow> (string \<times> int \<times> int \<times> int) option" where
  "search_parse_reference ref =
     (let s = strip ref in
      if s = [] then None
      else
        case rindex CHR '' '' s of
          None \<Rightarrow> None
        | Some space_idx \<Rightarrow>
            let book_str = strip (take space_idx s);
                cv_str = strip (drop (space_idx + 1) s)
            in
              if CHR '':'' \<notin> set cv_str then None
              else
                case split1 CHR '':'' cv_str of
                  (chap_str, verse_part0) \<Rightarrow>
                    (case py_int chap_str of
                       None \<Rightarrow> None
                     | Some chapter \<Rightarrow>
                         let verse_part = strip verse_part0 in
                         if CHR ''-'' \<in> set verse_part then
                           (case split1 CHR ''-'' verse_part of
                              (start_str, end_str) \<Rightarrow>
                                (case py_int (strip start_str) of
                                   None \<Rightarrow> None
                                 | Some v_start \<Rightarrow>
                                     (case py_int (strip end_str) of
                                        None \<Rightarrow> None
                                      | Some v_end \<Rightarrow> Some (book_str, chapter, v_start, v_end))))
                         else
                           (case py_int verse_part of
                              None \<Rightarrow> None
                            | Some v \<Rightarrow> Some (book_str, chapter, v, v))))"

text \<open>\<^verbatim>\<open>sbc.parallel._parse_reference_range\<close>\<close>

definition parse_reference_range :: "string \<Rightarrow> (string \<times> int \<times> int \<times> int) option" where
  "parse_reference_range ref =
     (let s = strip ref in
      if s = [] then None
      else
        case rindex CHR '' '' s of
          None \<Rightarrow> None
        | Some space_idx \<Rightarrow>
            let book_str = strip (take space_idx s);
                cv_str = strip (drop (space_idx + 1) s)
            in
              if CHR '':'' \<notin> set cv_str then None
              else
                case split1 CHR '':'' cv_str of
                  (chap_str, verse_part0) \<Rightarrow>
                    (case py_int (strip chap_str) of
                       None \<Rightarrow> None
                     | Some chapter \<Rightarrow>
                         let verse_part = strip verse_part0 in
                         if CHR ''-'' \<in> set verse_part then
                           (case split1 CHR ''-'' verse_part of
                              (start_str, end_str) \<Rightarrow>
                                (case py_int (strip start_str) of
                                   None \<Rightarrow> None
                                 | Some v_start \<Rightarrow>
                                     (case py_int (strip end_str) of
                                        None \<Rightarrow> None
                                      | Some v_end \<Rightarrow> Some (book_str, chapter, v_start, v_end))))
                         else
                           (case py_int verse_part of
                              None \<Rightarrow> None
                            | Some v \<Rightarrow> Some (book_str, chapter, v, v))))"

text \<open>\<^verbatim>\<open>sbc.context._parse_reference\<close>: one verse, the centre of the window.\<close>

definition context_parse_reference :: "string \<Rightarrow> (string \<times> int \<times> int) option" where
  "context_parse_reference ref =
     (let s = strip ref in
      if s = [] then None
      else
        case rindex CHR '' '' s of
          None \<Rightarrow> None
        | Some space_idx \<Rightarrow>
            let book_str = strip (take space_idx s);
                cv_str = strip (drop (space_idx + 1) s)
            in
              if CHR '':'' \<notin> set cv_str then None
              else
                case split1 CHR '':'' cv_str of
                  (chap_str, verse_str) \<Rightarrow>
                    (case py_int (strip chap_str) of
                       None \<Rightarrow> None
                     | Some chapter \<Rightarrow>
                         (case py_int (strip verse_str) of
                            None \<Rightarrow> None
                          | Some verse \<Rightarrow> Some (book_str, chapter, verse))))"

subsection \<open>Canon and book resolution\<close>

text \<open>
  An entry of \<^verbatim>\<open>data/canon.json\<close>: \<^verbatim>\<open>book_num\<close>, \<^verbatim>\<open>code\<close>, \<^verbatim>\<open>name\<close> and the optional
  \<^verbatim>\<open>testament\<close>. The file is \<open>None\<close> when it does not exist.
\<close>

type_synonym canon_entry = "int \<times> string \<times> string \<times> string option"

record canon_meta =
  code :: string
  name :: string
  testament :: string

type_synonym canon = "(int \<times> canon_meta) list"

text \<open>\<^verbatim>\<open>sbc.loader.load_canon\<close>\<close>

definition load_canon :: "canon_entry list option \<Rightarrow> canon" where
  "load_canon canon_file =
     (case canon_file of
        None \<Rightarrow> []
      | Some data \<Rightarrow>
          fold (\<lambda>(num, c, n, t) result.
                  AList.update num
                    \<lparr>code = c, name = n,
                     testament = (case t of None \<Rightarrow> ''unknown'' | Some x \<Rightarrow> x)\<rparr>
                    result)
               data [])"

text \<open>
  \<^verbatim>\<open>_build_book_lookup\<close>, the same in all four modules. The four keys of one book are
  written with the same number, so the order in which the set of keys is run through
  does not show.
\<close>

definition build_book_lookup :: "canon \<Rightarrow> (string \<rightharpoonup> int)" where
  "build_book_lookup canon =
     fold (\<lambda>(num, meta) lookup.
             lookup(code meta \<mapsto> num, py_lower (code meta) \<mapsto> num,
                    name meta \<mapsto> num, py_lower (name meta) \<mapsto> num))
          canon Map.empty"

text \<open>
  The loop \<^verbatim>\<open>for key in (book_str, book_str.lower())\<close> of the three reference functions.
\<close>

definition lookup_book :: "(string \<rightharpoonup> int) \<Rightarrow> string \<Rightarrow> int option" where
  "lookup_book book_lookup book_str =
     (case book_lookup book_str of
        Some num \<Rightarrow> Some num
      | None \<Rightarrow>
          (case book_lookup (py_lower book_str) of
             Some num \<Rightarrow> Some num
           | None \<Rightarrow> None))"

text \<open>\<^verbatim>\<open>sbc.loader._resolve_book\<close>; the book code of the pair is always \<^verbatim>\<open>None\<close>.\<close>

definition resolve_book :: "string \<Rightarrow> (string \<rightharpoonup> int) \<Rightarrow> (int \<times> string option) option" where
  "resolve_book book_str book_lookup =
     (let key_exact = book_str; key_lower = py_lower book_str in
      case book_lookup key_exact of
        Some num \<Rightarrow> Some (num, None)
      | None \<Rightarrow>
          (case book_lookup key_lower of
             Some num \<Rightarrow> Some (num, None)
           | None \<Rightarrow> None))"

subsection \<open>Verse store\<close>

text \<open>A row: translation code, book number, book code, chapter, verse, text.\<close>

type_synonym VerseRow = "string \<times> int \<times> string \<times> int \<times> int \<times> string"

datatype db = Unavailable | Table "VerseRow list"

datatype py_exception = KeyError | Sqlite3Error | OverflowError

text \<open>An integer that SQLite stores: 64 bits, signed.\<close>

definition sqlite_int :: "int \<Rightarrow> bool" where
  "sqlite_int i = (- (2 ^ 63) \<le> i \<and> i < 2 ^ 63)"

text \<open>
  \<^verbatim>\<open>with get_conn(readonly=True) as conn: conn.execute(...).fetchall()\<close>, for a statement
  given by its integer parameters and by what it selects from the table. The connection is
  opened and the statement compiled before the parameters are bound.
\<close>

definition fetchall ::
  "db \<Rightarrow> int list \<Rightarrow> (VerseRow list \<Rightarrow> 'r list) \<Rightarrow> py_exception + 'r list" where
  "fetchall d params stmt =
     (case d of
        Unavailable \<Rightarrow> Inl Sqlite3Error
      | Table tbl \<Rightarrow> if list_all sqlite_int params then Inr (stmt tbl) else Inl OverflowError)"

text \<open>
  The statement of \<^verbatim>\<open>get_passage\<close> and \<^verbatim>\<open>get_verse_window\<close>:
  \<^verbatim>\<open>WHERE translation_code = ? AND book_num = ? AND chapter = ? AND verse BETWEEN ? AND ?
  ORDER BY verse\<close>. Rows with the same verse keep the order of the table.
\<close>

definition select_passage ::
  "string \<Rightarrow> int \<Rightarrow> int \<Rightarrow> int \<Rightarrow> int \<Rightarrow> VerseRow list \<Rightarrow> VerseRow list" where
  "select_passage translation_code num chapter v_start v_end tbl =
     sort_key (\<lambda>(tc, bn, bc, ch, v, txt). v)
       (filter (\<lambda>(tc, bn, bc, ch, v, txt).
                  tc = translation_code \<and> bn = num \<and> ch = chapter \<and> v_start \<le> v \<and> v \<le> v_end)
               tbl)"

text \<open>
  The statement of \<^verbatim>\<open>get_parallel_verses\<close>: five columns,
  \<^verbatim>\<open>WHERE translation_code IN (...) AND book_num = ? AND chapter = ? AND verse BETWEEN ? AND ?
  ORDER BY verse, translation_code\<close>.
\<close>

type_synonym ParallelFetchRow = "string \<times> string \<times> int \<times> int \<times> string"

definition select_parallel ::
  "string list \<Rightarrow> int \<Rightarrow> int \<Rightarrow> int \<Rightarrow> int \<Rightarrow> VerseRow list \<Rightarrow> ParallelFetchRow list" where
  "select_parallel translation_codes num chapter v_start v_end tbl =
     sort_key (\<lambda>(tc, bc, ch, v, txt). (v, tc))
       (map (\<lambda>(tc, bn, bc, ch, v, txt). (tc, bc, ch, v, txt))
          (filter (\<lambda>(tc, bn, bc, ch, v, txt).
                     tc \<in> set translation_codes \<and> bn = num \<and> ch = chapter
                     \<and> v_start \<le> v \<and> v \<le> v_end)
                  tbl))"

text \<open>
  The statements of \<^verbatim>\<open>search_verses\<close>:
  \<^verbatim>\<open>WHERE [translation_code = ? AND] text LIKE ? ORDER BY translation_code, book_num,
  chapter, verse LIMIT ?\<close>. The operator \<^verbatim>\<open>LIKE\<close> of the database is the parameter
  \<open>like\<close> (pattern first); a negative limit is no limit.
\<close>

definition limit_rows :: "int \<Rightarrow> 'a list \<Rightarrow> 'a list" where
  "limit_rows n xs = (if n < 0 then xs else take (nat n) xs)"

definition select_search ::
  "(string \<Rightarrow> string \<Rightarrow> bool) \<Rightarrow> string option \<Rightarrow> string \<Rightarrow> int \<Rightarrow> VerseRow list \<Rightarrow> VerseRow list" where
  "select_search like translation_code pattern n tbl =
     limit_rows n
       (sort_key (\<lambda>(tc, bn, bc, ch, v, txt). (tc, bn, ch, v))
          (filter (\<lambda>(tc, bn, bc, ch, v, txt).
                     (case translation_code of None \<Rightarrow> True | Some t \<Rightarrow> tc = t)
                     \<and> like pattern txt)
                  tbl))"

subsection \<open>Query functions\<close>

text \<open>\<^verbatim>\<open>sbc.search.search_verses\<close>; an absent or empty translation code is no filter.\<close>

definition search_verses ::
  "(string \<Rightarrow> string \<Rightarrow> bool) \<Rightarrow> db \<Rightarrow> string \<Rightarrow> int \<Rightarrow> string option
     \<Rightarrow> py_exception + VerseRow list" where
  "search_verses like d query0 limit translation_code =
     (let query = strip query0 in
      if query = [] then Inr []
      else
        case fetchall d [limit]
               (select_search like
                  (case translation_code of
                     None \<Rightarrow> None
                   | Some t \<Rightarrow> if t = [] then None else Some (py_upper t))
                  (''%'' @ query @ ''%'') limit) of
          Inl e \<Rightarrow> (if e = Sqlite3Error then Inr [] else Inl e)
        | Inr rows \<Rightarrow> Inr rows)"

text \<open>\<^verbatim>\<open>sbc.search.get_passage\<close>\<close>

definition get_passage ::
  "canon_entry list option \<Rightarrow> db \<Rightarrow> string \<Rightarrow> string \<Rightarrow> py_exception + VerseRow list" where
  "get_passage canon_file d ref translation_code0 =
     (let translation_code = py_upper translation_code0 in
      case search_parse_reference ref of
        None \<Rightarrow> Inr []
      | Some (book_str, chapter, v_start, v_end) \<Rightarrow>
          let canon = load_canon canon_file in
          if canon = [] then Inr []
          else
            let book_lookup = build_book_lookup canon in
            (case lookup_book book_lookup book_str of
              None \<Rightarrow> Inr []
            | Some num \<Rightarrow>
                (case map_of canon num of
                   None \<Rightarrow> Inl KeyError
                 | Some book_meta \<Rightarrow>
                     (case fetchall d [num, chapter, v_start, v_end]
                             (select_passage translation_code num chapter v_start v_end) of
                        Inl e \<Rightarrow> (if e = Sqlite3Error then Inr [] else Inl e)
                      | Inr rows \<Rightarrow> Inr rows))))"

text \<open>
  \<^verbatim>\<open>sbc.context.get_verse_window\<close>; \<open>n_before\<close> and \<open>n_after\<close> are its parameters
  \<^verbatim>\<open>before\<close> and \<^verbatim>\<open>after\<close>.
\<close>

definition get_verse_window ::
  "canon_entry list option \<Rightarrow> db \<Rightarrow> string \<Rightarrow> string \<Rightarrow> int \<Rightarrow> int
     \<Rightarrow> py_exception + VerseRow list" where
  "get_verse_window canon_file d ref translation_code0 n_before n_after =
     (let translation_code = py_upper translation_code0 in
      case context_parse_reference ref of
        None \<Rightarrow> Inr []
      | Some (book_str, chapter, center_verse) \<Rightarrow>
          let canon = load_canon canon_file in
          if canon = [] then Inr []
          else
            let book_lookup = build_book_lookup canon in
            (case lookup_book book_lookup book_str of
              None \<Rightarrow> Inr []
            | Some num \<Rightarrow>
                (case map_of canon num of
                   None \<Rightarrow> Inl KeyError
                 | Some book_meta \<Rightarrow>
                     let v_start = max 1 (center_verse - n_before);
                         v_end = center_verse + n_after
                     in
                       (case fetchall d [num, chapter, v_start, v_end]
                               (select_passage translation_code num chapter v_start v_end) of
                          Inl e \<Rightarrow> (if e = Sqlite3Error then Inr [] else Inl e)
                        | Inr rows \<Rightarrow> Inr rows))))"

text \<open>
  A row of the parallel result: book code, chapter, verse, and the texts by translation
  code.
\<close>

type_synonym ParallelRow = "string \<times> int \<times> int \<times> (string \<times> string) list"

text \<open>
  The loop of \<^verbatim>\<open>get_parallel_verses\<close> over the fetched rows, which fills
  \<^verbatim>\<open>verse_map\<close>.
\<close>

definition verse_map_step ::
  "int \<Rightarrow> ParallelFetchRow \<Rightarrow> (int \<times> (string \<times> string) list) list
     \<Rightarrow> (int \<times> (string \<times> string) list) list" where
  "verse_map_step chapter row verse_map =
     (case row of
        (t_code, b_code, chap, verse, text) \<Rightarrow>
          if chap \<noteq> chapter then verse_map
          else
            let mapping = (case map_of verse_map verse of None \<Rightarrow> [] | Some m \<Rightarrow> m) in
            AList.update verse (AList.update t_code text mapping) verse_map)"

definition build_verse_map ::
  "int \<Rightarrow> ParallelFetchRow list \<Rightarrow> (int \<times> (string \<times> string) list) list" where
  "build_verse_map chapter rows = fold (verse_map_step chapter) rows []"

text \<open>\<^verbatim>\<open>sbc.parallel.get_parallel_verses\<close>\<close>

definition get_parallel_verses ::
  "canon_entry list option \<Rightarrow> db \<Rightarrow> string \<Rightarrow> string list \<Rightarrow> py_exception + ParallelRow list" where
  "get_parallel_verses canon_file d ref translation_codes0 =
     (let translation_codes = map py_upper translation_codes0 in
      if translation_codes = [] then Inr []
      else
        case parse_reference_range ref of
          None \<Rightarrow> Inr []
        | Some (book_str, chapter, v_start, v_end) \<Rightarrow>
            let canon = load_canon canon_file in
            if canon = [] then Inr []
            else
              let book_lookup = build_book_lookup canon in
              (case lookup_book book_lookup book_str of
                None \<Rightarrow> Inr []
              | Some num \<Rightarrow>
                  (case map_of canon num of
                     None \<Rightarrow> Inl KeyError
                   | Some book_meta \<Rightarrow>
                       let book_code = code book_meta in
                       (case fetchall d [num, chapter, v_start, v_end]
                               (select_parallel translation_codes num chapter v_start v_end) of
                          Inl e \<Rightarrow> (if e = Sqlite3Error then Inr [] else Inl e)
                        | Inr rows \<Rightarrow>
                            if rows = [] then Inr []
                            else
                              let verse_map = build_verse_map chapter rows in
                              Inr (map (\<lambda>verse.
                                          (book_code, chapter, verse,
                                           (case map_of verse_map verse of
                                              None \<Rightarrow> []
                                            | Some texts \<Rightarrow> texts)))
                                       [v_start..v_end])))))"

text \<open>
  \<^verbatim>\<open>sbc.parallel.print_parallel\<close>: the lines it writes with \<^verbatim>\<open>print\<close>.
\<close>

definition print_parallel ::
  "canon_entry list option \<Rightarrow> string \<Rightarrow> string list \<Rightarrow> ParallelRow list \<Rightarrow> string list" where
  "print_parallel canon_file ref translation_codes0 rows =
     (if rows = [] then []
      else
        let translation_codes = map py_upper translation_codes0;
            canon = load_canon canon_file;
            book_code0 = fst (hd rows);
            book_name =
              (case find (\<lambda>(num, meta). code meta = book_code0) canon of
                 None \<Rightarrow> book_code0
               | Some (num, meta) \<Rightarrow> name meta)
        in
          concat
            (map (\<lambda>(book_code, chapter, verse, texts).
                    (book_name @ '' '' @ py_str chapter @ '':'' @ py_str verse)
                    # map (\<lambda>c. ''  ['' @ c @ ''] ''
                                 @ (case map_of texts c of
                                      None \<Rightarrow> ''(missing in this translation)''
                                    | Some text \<Rightarrow> text))
                          translation_codes
                    @ [[]])
                 rows))"

subsection \<open>Sample data\<close>

definition sample_canon_file :: "canon_entry list option" where
  "sample_canon_file =
     Some [(1, ''GEN'', ''Genesis'', Some ''OT''), (43, ''JHN'', ''John'', Some ''NT'')]"

definition sample_db :: db where
  "sample_db =
     Table [(''KJV'', 43, ''JHN'', 3, 16, ''For God so loved the world''),
            (''KJV'', 1, ''GEN'', 1, 4, ''And God saw the light''),
            (''KJV'', 1, ''GEN'', 1, 2, ''And the earth was without form''),
            (''KJV'', 1, ''GEN'', 1, 1, ''In the beginning''),
            (''KJV'', 1, ''GEN'', 1, 3, ''And God said''),
            (''BSB'', 1, ''GEN'', 1, 2, ''Now the earth was formless'')]"

section \<open>Properties\<close>

subsection \<open>Case mappings\<close>

lemma upper_char_idem: "upper_char (upper_char c) = upper_char c"
  by (auto simp: upper_char_def Let_def)

lemma lower_char_idem: "lower_char (lower_char c) = lower_char c"
  by (auto simp: lower_char_def Let_def)

lemma py_upper_idem: "py_upper (py_upper s) = py_upper s"
  by (simp add: py_upper_def upper_char_idem)

lemma py_lower_idem: "py_lower (py_lower s) = py_lower s"
  by (simp add: py_lower_def lower_char_idem)

lemma py_upper_comp: "py_upper \<circ> py_upper = py_upper"
  by (rule ext) (simp add: py_upper_idem)

subsection \<open>The book lookup only holds book numbers of the canon\<close>

definition lookup_step :: "int \<times> canon_meta \<Rightarrow> (string \<rightharpoonup> int) \<Rightarrow> (string \<rightharpoonup> int)" where
  "lookup_step =
     (\<lambda>(num, meta) lookup.
        lookup(code meta \<mapsto> num, py_lower (code meta) \<mapsto> num,
               name meta \<mapsto> num, py_lower (name meta) \<mapsto> num))"

lemma build_book_lookup_alt: "build_book_lookup canon = fold lookup_step canon Map.empty"
  by (simp add: build_book_lookup_def lookup_step_def)

lemma lookup_step_Some:
  "lookup_step a m k = Some n \<Longrightarrow> n = fst a \<or> m k = Some n"
  by (cases a) (auto simp: lookup_step_def split: if_splits)

lemma fold_lookup_step_range:
  "fold lookup_step canon m k = Some n \<Longrightarrow> n \<in> fst ` set canon \<or> m k = Some n"
proof (induction canon arbitrary: m)
  case Nil
  then show ?case by simp
next
  case (Cons a canon)
  from Cons.prems have "fold lookup_step canon (lookup_step a m) k = Some n" by simp
  from Cons.IH[OF this] show ?case
    using lookup_step_Some[of a m k n] by auto
qed

lemma build_book_lookup_range:
  "build_book_lookup canon k = Some n \<Longrightarrow> n \<in> fst ` set canon"
  using fold_lookup_step_range[of canon Map.empty k n]
  by (simp add: build_book_lookup_alt)

lemma lookup_book_range:
  "lookup_book (build_book_lookup canon) b = Some n \<Longrightarrow> n \<in> fst ` set canon"
  by (auto simp: lookup_book_def split: option.splits dest: build_book_lookup_range)

lemma lookup_book_in_canon:
  "lookup_book (build_book_lookup canon) b = Some n \<Longrightarrow> \<exists>meta. map_of canon n = Some meta"
  using lookup_book_range[of canon b n]
  by (metis domD domI dom_map_of_conv_image_fst)

subsection \<open>Statements over an empty verse range\<close>

lemma select_passage_empty_range:
  assumes "v_end < v_start"
  shows "select_passage t num ch v_start v_end tbl = []"
proof -
  from assms have
    "filter (\<lambda>(tc, bn, bc, c, v, txt).
               tc = t \<and> bn = num \<and> c = ch \<and> v_start \<le> v \<and> v \<le> v_end) tbl = []"
    by (auto simp: filter_empty_conv)
  then show ?thesis by (simp add: select_passage_def)
qed

lemma select_parallel_empty_range:
  assumes "v_end < v_start"
  shows "select_parallel ts num ch v_start v_end tbl = []"
proof -
  from assms have
    "filter (\<lambda>(tc, bn, bc, c, v, txt).
               tc \<in> set ts \<and> bn = num \<and> c = ch \<and> v_start \<le> v \<and> v \<le> v_end) tbl = []"
    by (auto simp: filter_empty_conv)
  then show ?thesis by (simp add: select_parallel_def)
qed

subsection \<open>Translation codes\<close>

text \<open>
  Claim C10. Every reference function puts the translation code in upper case before it
  queries: \<^verbatim>\<open>get_passage\<close>, \<^verbatim>\<open>get_verse_window\<close> and \<^verbatim>\<open>get_parallel_verses\<close> give the same
  result for a translation code \<open>t\<close> and for \<open>t.upper()\<close>, whatever the reference, the canon
  and the database are; for the parallel function this holds for one code of the list and
  for all of them.
\<close>

theorem translation_code_case_irrelevant:
  "get_passage cf d ref (py_upper t) = get_passage cf d ref t
   \<and> get_verse_window cf d ref (py_upper t) n_before n_after
       = get_verse_window cf d ref t n_before n_after
   \<and> get_parallel_verses cf d ref (py_upper t # ts) = get_parallel_verses cf d ref (t # ts)
   \<and> get_parallel_verses cf d ref (map py_upper (t # ts)) = get_parallel_verses cf d ref (t # ts)"
  by (simp add: get_passage_def get_verse_window_def get_parallel_verses_def
                py_upper_idem py_upper_comp)

theorem translation_code_case_irrelevant_witness:
  "get_passage sample_canon_file sample_db ''John 3:16'' ''kjv''
     = Inr [(''KJV'', 43, ''JHN'', 3, 16, ''For God so loved the world'')]
   \<and> get_parallel_verses sample_canon_file sample_db ''John 3:16'' [''kjv'', ''bsb'']
     = Inr [(''JHN'', 3, 16, [(''KJV'', ''For God so loved the world'')])]"
proof -
  have u: "py_upper ''kjv'' = ''KJV''" "py_upper ''bsb'' = ''BSB''"
    by code_simp+
  have p: "get_passage sample_canon_file sample_db ''John 3:16'' ''KJV''
             = Inr [(''KJV'', 43, ''JHN'', 3, 16, ''For God so loved the world'')]"
    unfolding sample_canon_file_def sample_db_def by code_simp
  have q: "get_parallel_verses sample_canon_file sample_db ''John 3:16'' [''KJV'', ''BSB'']
             = Inr [(''JHN'', 3, 16, [(''KJV'', ''For God so loved the world'')])]"
    unfolding sample_canon_file_def sample_db_def by code_simp
  from translation_code_case_irrelevant
         [of sample_canon_file sample_db "''John 3:16''" "''kjv''" _ _ "[''bsb'']"]
  show ?thesis
    by (simp only: u p q list.map)
qed

subsection \<open>What the query functions return\<close>

text \<open>The verse of a row, and of a row of the parallel result.\<close>

definition row_verse :: "VerseRow \<Rightarrow> int" where
  "row_verse = (\<lambda>(tc, bn, bc, ch, v, txt). v)"

definition parallel_verse :: "ParallelRow \<Rightarrow> int" where
  "parallel_verse = (\<lambda>(bc, ch, v, texts). v)"

lemma load_canon_empty_iff: "load_canon cf = [] \<longleftrightarrow> cf = None \<or> cf = Some []"
proof (cases cf)
  case None
  then show ?thesis by (simp add: load_canon_def)
next
  case (Some data)
  show ?thesis
  proof (cases data rule: rev_cases)
    case Nil
    with Some show ?thesis by (simp add: load_canon_def)
  next
    case (snoc ys y)
    with Some show ?thesis by (cases y) (simp add: load_canon_def)
  qed
qed

text \<open>The last loop of \<^verbatim>\<open>get_parallel_verses\<close>, over the verses of the range.\<close>

definition parallel_rows ::
  "string \<Rightarrow> int \<Rightarrow> int \<Rightarrow> int \<Rightarrow> ParallelFetchRow list \<Rightarrow> ParallelRow list" where
  "parallel_rows book_code chapter v_start v_end rows =
     map (\<lambda>verse. (book_code, chapter, verse,
                   (case map_of (build_verse_map chapter rows) verse of
                      None \<Rightarrow> [] | Some texts \<Rightarrow> texts)))
         [v_start..v_end]"

text \<open>
  The value of each reference function once the reference is parsed and the book found:
  the \<^verbatim>\<open>KeyError\<close> of \<^verbatim>\<open>canon[num]\<close> cannot happen.
\<close>

lemma get_passage_resolved:
  assumes "search_parse_reference ref = Some (b, ch, vs, ve)"
    and "lookup_book (build_book_lookup (load_canon cf)) b = Some num"
  shows "get_passage cf d ref t
           = (case d of
                Unavailable \<Rightarrow> Inr []
              | Table tbl \<Rightarrow>
                  if list_all sqlite_int [num, ch, vs, ve]
                  then Inr (select_passage (py_upper t) num ch vs ve tbl)
                  else Inl OverflowError)"
proof -
  from assms(2) obtain meta where m: "map_of (load_canon cf) num = Some meta"
    using lookup_book_in_canon by blast
  then have "load_canon cf \<noteq> []" by auto
  with assms m show ?thesis
    by (cases d) (simp_all add: get_passage_def Let_def fetchall_def)
qed

lemma get_verse_window_resolved:
  assumes "context_parse_reference ref = Some (b, ch, c)"
    and "lookup_book (build_book_lookup (load_canon cf)) b = Some num"
  shows "get_verse_window cf d ref t nb na
           = (case d of
                Unavailable \<Rightarrow> Inr []
              | Table tbl \<Rightarrow>
                  if list_all sqlite_int [num, ch, max 1 (c - nb), c + na]
                  then Inr (select_passage (py_upper t) num ch (max 1 (c - nb)) (c + na) tbl)
                  else Inl OverflowError)"
proof -
  from assms(2) obtain meta where m: "map_of (load_canon cf) num = Some meta"
    using lookup_book_in_canon by blast
  then have "load_canon cf \<noteq> []" by auto
  with assms m show ?thesis
    by (cases d) (simp_all add: get_verse_window_def Let_def fetchall_def)
qed

lemma get_parallel_verses_resolved:
  assumes "parse_reference_range ref = Some (b, ch, vs, ve)"
    and "lookup_book (build_book_lookup (load_canon cf)) b = Some num"
    and "map_of (load_canon cf) num = Some meta"
  shows "get_parallel_verses cf d ref ts
           = (if ts = [] then Inr []
              else case d of
                Unavailable \<Rightarrow> Inr []
              | Table tbl \<Rightarrow>
                  if \<not> list_all sqlite_int [num, ch, vs, ve] then Inl OverflowError
                  else if select_parallel (map py_upper ts) num ch vs ve tbl = [] then Inr []
                  else Inr (parallel_rows (code meta) ch vs ve
                              (select_parallel (map py_upper ts) num ch vs ve tbl)))"
proof -
  from assms(3) have "load_canon cf \<noteq> []" by auto
  with assms show ?thesis
    by (cases d) (simp_all add: get_parallel_verses_def Let_def fetchall_def parallel_rows_def)
qed

lemma get_passage_unresolved:
  "search_parse_reference ref = None
     \<or> (\<exists>b ch vs ve. search_parse_reference ref = Some (b, ch, vs, ve)
           \<and> lookup_book (build_book_lookup (load_canon cf)) b = None)
   \<Longrightarrow> get_passage cf d ref t = Inr []"
  by (auto simp: get_passage_def Let_def)

lemma get_verse_window_unresolved:
  "context_parse_reference ref = None
     \<or> (\<exists>b ch c. context_parse_reference ref = Some (b, ch, c)
           \<and> lookup_book (build_book_lookup (load_canon cf)) b = None)
   \<Longrightarrow> get_verse_window cf d ref t nb na = Inr []"
  by (auto simp: get_verse_window_def Let_def)

lemma get_parallel_verses_unresolved:
  "parse_reference_range ref = None
     \<or> (\<exists>b ch vs ve. parse_reference_range ref = Some (b, ch, vs, ve)
           \<and> lookup_book (build_book_lookup (load_canon cf)) b = None)
   \<Longrightarrow> get_parallel_verses cf d ref ts = Inr []"
  by (auto simp: get_parallel_verses_def Let_def)

text \<open>Each function returns the empty list, its selection, or \<^verbatim>\<open>OverflowError\<close>.\<close>

lemma get_passage_result:
  "get_passage cf d ref t = Inr [] \<or> get_passage cf d ref t = Inl OverflowError \<or>
   (\<exists>b ch vs ve num tbl. search_parse_reference ref = Some (b, ch, vs, ve)
      \<and> lookup_book (build_book_lookup (load_canon cf)) b = Some num \<and> d = Table tbl
      \<and> get_passage cf d ref t = Inr (select_passage (py_upper t) num ch vs ve tbl))"
proof (cases "search_parse_reference ref")
  case None
  then show ?thesis using get_passage_unresolved[of ref cf d t] by simp
next
  case (Some p)
  obtain b ch vs ve where p: "p = (b, ch, vs, ve)" by (cases p)
  show ?thesis
  proof (cases "lookup_book (build_book_lookup (load_canon cf)) b")
    case None
    with Some p show ?thesis using get_passage_unresolved[of ref cf d t] by simp
  next
    case (Some num)
    from get_passage_resolved[OF _ Some, of ref ch vs ve d t]
         \<open>search_parse_reference ref = Some p\<close> p Some
    show ?thesis by (cases d) (auto split: if_splits)
  qed
qed

lemma get_verse_window_result:
  "get_verse_window cf d ref t nb na = Inr []
   \<or> get_verse_window cf d ref t nb na = Inl OverflowError \<or>
   (\<exists>b ch c num tbl. context_parse_reference ref = Some (b, ch, c)
      \<and> lookup_book (build_book_lookup (load_canon cf)) b = Some num \<and> d = Table tbl
      \<and> get_verse_window cf d ref t nb na
          = Inr (select_passage (py_upper t) num ch (max 1 (c - nb)) (c + na) tbl))"
proof (cases "context_parse_reference ref")
  case None
  then show ?thesis using get_verse_window_unresolved[of ref cf d t nb na] by simp
next
  case (Some p)
  obtain b ch c where p: "p = (b, ch, c)" by (cases p)
  show ?thesis
  proof (cases "lookup_book (build_book_lookup (load_canon cf)) b")
    case None
    with Some p show ?thesis using get_verse_window_unresolved[of ref cf d t nb na] by simp
  next
    case (Some num)
    from get_verse_window_resolved[OF _ Some, of ref ch c d t nb na]
         \<open>context_parse_reference ref = Some p\<close> p Some
    show ?thesis by (cases d) (auto split: if_splits)
  qed
qed

lemma get_parallel_verses_result:
  "get_parallel_verses cf d ref ts = Inr []
   \<or> get_parallel_verses cf d ref ts = Inl OverflowError \<or>
   (\<exists>b ch vs ve num meta tbl. parse_reference_range ref = Some (b, ch, vs, ve)
      \<and> lookup_book (build_book_lookup (load_canon cf)) b = Some num
      \<and> map_of (load_canon cf) num = Some meta \<and> d = Table tbl
      \<and> select_parallel (map py_upper ts) num ch vs ve tbl \<noteq> []
      \<and> get_parallel_verses cf d ref ts
          = Inr (parallel_rows (code meta) ch vs ve
                   (select_parallel (map py_upper ts) num ch vs ve tbl)))"
proof (cases "parse_reference_range ref")
  case None
  then show ?thesis using get_parallel_verses_unresolved[of ref cf d ts] by simp
next
  case (Some p)
  obtain b ch vs ve where p: "p = (b, ch, vs, ve)" by (cases p)
  show ?thesis
  proof (cases "lookup_book (build_book_lookup (load_canon cf)) b")
    case None
    with Some p show ?thesis using get_parallel_verses_unresolved[of ref cf d ts] by simp
  next
    case (Some num)
    then obtain meta where m: "map_of (load_canon cf) num = Some meta"
      using lookup_book_in_canon by blast
    from get_parallel_verses_resolved[OF _ Some m, of ref ch vs ve d ts]
         \<open>parse_reference_range ref = Some p\<close> p Some m
    show ?thesis by (cases d) (auto split: if_splits)
  qed
qed

lemma search_verses_result:
  "search_verses like d q lim tc = Inr [] \<or> search_verses like d q lim tc = Inl OverflowError
   \<or> (\<exists>tbl rows. d = Table tbl \<and> search_verses like d q lim tc = Inr rows)"
  by (cases d) (simp_all add: search_verses_def Let_def fetchall_def)

subsection \<open>Failures become empty results\<close>

lemma get_passage_unavailable: "get_passage cf Unavailable ref t = Inr []"
proof (cases "search_parse_reference ref")
  case None
  then show ?thesis using get_passage_unresolved[of ref cf Unavailable t] by simp
next
  case (Some p)
  obtain b ch vs ve where p: "p = (b, ch, vs, ve)" by (cases p)
  show ?thesis
  proof (cases "lookup_book (build_book_lookup (load_canon cf)) b")
    case None
    with Some p show ?thesis using get_passage_unresolved[of ref cf Unavailable t] by simp
  next
    case (Some num)
    from get_passage_resolved[OF _ Some, of ref ch vs ve Unavailable t]
         \<open>search_parse_reference ref = Some p\<close> p
    show ?thesis by simp
  qed
qed

lemma get_verse_window_unavailable: "get_verse_window cf Unavailable ref t nb na = Inr []"
proof (cases "context_parse_reference ref")
  case None
  then show ?thesis using get_verse_window_unresolved[of ref cf Unavailable t nb na] by simp
next
  case (Some p)
  obtain b ch c where p: "p = (b, ch, c)" by (cases p)
  show ?thesis
  proof (cases "lookup_book (build_book_lookup (load_canon cf)) b")
    case None
    with Some p show ?thesis
      using get_verse_window_unresolved[of ref cf Unavailable t nb na] by simp
  next
    case (Some num)
    from get_verse_window_resolved[OF _ Some, of ref ch c Unavailable t nb na]
         \<open>context_parse_reference ref = Some p\<close> p
    show ?thesis by simp
  qed
qed

lemma get_parallel_verses_unavailable: "get_parallel_verses cf Unavailable ref ts = Inr []"
proof (cases "parse_reference_range ref")
  case None
  then show ?thesis using get_parallel_verses_unresolved[of ref cf Unavailable ts] by simp
next
  case (Some p)
  obtain b ch vs ve where p: "p = (b, ch, vs, ve)" by (cases p)
  show ?thesis
  proof (cases "lookup_book (build_book_lookup (load_canon cf)) b")
    case None
    with Some p show ?thesis
      using get_parallel_verses_unresolved[of ref cf Unavailable ts] by simp
  next
    case (Some num)
    then obtain meta where m: "map_of (load_canon cf) num = Some meta"
      using lookup_book_in_canon by blast
    from get_parallel_verses_resolved[OF _ Some m, of ref ch vs ve Unavailable ts]
         \<open>parse_reference_range ref = Some p\<close> p
    show ?thesis by simp
  qed
qed

text \<open>
  Each query function returns the empty list, and no exception, when the reference does
  not parse, when the book of a parsed reference is not found in the book lookup, when
  the canon file is absent or empty, and when the database fails with
  \<^verbatim>\<open>sqlite3.Error\<close>; \<^verbatim>\<open>search_verses\<close>, which takes no reference, does so when the database
  fails. The only exception that a call of the four functions can end in is
  \<^verbatim>\<open>OverflowError\<close>.
\<close>

lemma facades_empty_on_listed_failures:
  "(search_parse_reference ref = None \<longrightarrow> get_passage cf d ref t = Inr [])
   \<and> (context_parse_reference ref = None
        \<longrightarrow> get_verse_window cf d ref t n_before n_after = Inr [])
   \<and> (parse_reference_range ref = None \<longrightarrow> get_parallel_verses cf d ref ts = Inr [])
   \<and> (\<forall>b ch vs ve. search_parse_reference ref = Some (b, ch, vs, ve)
          \<and> lookup_book (build_book_lookup (load_canon cf)) b = None
        \<longrightarrow> get_passage cf d ref t = Inr [])
   \<and> (\<forall>b ch c. context_parse_reference ref = Some (b, ch, c)
          \<and> lookup_book (build_book_lookup (load_canon cf)) b = None
        \<longrightarrow> get_verse_window cf d ref t n_before n_after = Inr [])
   \<and> (\<forall>b ch vs ve. parse_reference_range ref = Some (b, ch, vs, ve)
          \<and> lookup_book (build_book_lookup (load_canon cf)) b = None
        \<longrightarrow> get_parallel_verses cf d ref ts = Inr [])
   \<and> (cf = None \<or> cf = Some []
        \<longrightarrow> get_passage cf d ref t = Inr []
          \<and> get_verse_window cf d ref t n_before n_after = Inr []
          \<and> get_parallel_verses cf d ref ts = Inr [])
   \<and> (d = Unavailable
        \<longrightarrow> get_passage cf d ref t = Inr []
          \<and> get_verse_window cf d ref t n_before n_after = Inr []
          \<and> get_parallel_verses cf d ref ts = Inr []
          \<and> search_verses like d query limit tc = Inr [])"
proof -
  have parse:
    "search_parse_reference ref = None \<longrightarrow> get_passage cf d ref t = Inr []"
    "context_parse_reference ref = None
       \<longrightarrow> get_verse_window cf d ref t n_before n_after = Inr []"
    "parse_reference_range ref = None \<longrightarrow> get_parallel_verses cf d ref ts = Inr []"
    by (simp_all add: get_passage_def get_verse_window_def get_parallel_verses_def)
  have book:
    "\<forall>b ch vs ve. search_parse_reference ref = Some (b, ch, vs, ve)
          \<and> lookup_book (build_book_lookup (load_canon cf)) b = None
        \<longrightarrow> get_passage cf d ref t = Inr []"
    "\<forall>b ch c. context_parse_reference ref = Some (b, ch, c)
          \<and> lookup_book (build_book_lookup (load_canon cf)) b = None
        \<longrightarrow> get_verse_window cf d ref t n_before n_after = Inr []"
    "\<forall>b ch vs ve. parse_reference_range ref = Some (b, ch, vs, ve)
          \<and> lookup_book (build_book_lookup (load_canon cf)) b = None
        \<longrightarrow> get_parallel_verses cf d ref ts = Inr []"
    by (auto simp: get_passage_def get_verse_window_def get_parallel_verses_def Let_def)
  have canon:
    "cf = None \<or> cf = Some []
        \<longrightarrow> get_passage cf d ref t = Inr []
          \<and> get_verse_window cf d ref t n_before n_after = Inr []
          \<and> get_parallel_verses cf d ref ts = Inr []"
  proof
    assume "cf = None \<or> cf = Some []"
    then have "load_canon cf = []" by (simp add: load_canon_empty_iff)
    then show "get_passage cf d ref t = Inr []
          \<and> get_verse_window cf d ref t n_before n_after = Inr []
          \<and> get_parallel_verses cf d ref ts = Inr []"
      by (simp add: get_passage_def get_verse_window_def get_parallel_verses_def Let_def
               split: option.splits)
  qed
  have store:
    "d = Unavailable
        \<longrightarrow> get_passage cf d ref t = Inr []
          \<and> get_verse_window cf d ref t n_before n_after = Inr []
          \<and> get_parallel_verses cf d ref ts = Inr []
          \<and> search_verses like d query limit tc = Inr []"
  proof
    assume u: "d = Unavailable"
    have "get_passage cf Unavailable ref t = Inr []"
      by (rule get_passage_unavailable)
    moreover have "get_verse_window cf Unavailable ref t n_before n_after = Inr []"
      by (rule get_verse_window_unavailable)
    moreover have "get_parallel_verses cf Unavailable ref ts = Inr []"
      by (rule get_parallel_verses_unavailable)
    moreover have "search_verses like Unavailable query limit tc = Inr []"
      by (simp add: search_verses_def Let_def fetchall_def)
    ultimately show "get_passage cf d ref t = Inr []
          \<and> get_verse_window cf d ref t n_before n_after = Inr []
          \<and> get_parallel_verses cf d ref ts = Inr []
          \<and> search_verses like d query limit tc = Inr []"
      using u by simp
  qed
  from parse book canon store show ?thesis by blast
qed

lemma facades_raise_overflow_only:
  "(get_passage cf d ref t = Inl e \<longrightarrow> e = OverflowError)
   \<and> (get_verse_window cf d ref t n_before n_after = Inl e \<longrightarrow> e = OverflowError)
   \<and> (get_parallel_verses cf d ref ts = Inl e \<longrightarrow> e = OverflowError)
   \<and> (search_verses like d query limit tc = Inl e \<longrightarrow> e = OverflowError)"
  using get_passage_result[of cf d ref t]
        get_verse_window_result[of cf d ref t n_before n_after]
        get_parallel_verses_result[of cf d ref ts]
        search_verses_result[of like d query limit tc]
  by auto

text \<open>
  Claim C1 says that no query function ever raises. The functions catch
  \<^verbatim>\<open>sqlite3.Error\<close> only: for the reference \<^verbatim>\<open>"Genesis 1:99999999999999999999"\<close>, which
  parses and whose book resolves, the verse does not fit the 64-bit integer of SQLite, and
  \<^verbatim>\<open>get_passage\<close>, \<^verbatim>\<open>get_verse_window\<close> and \<^verbatim>\<open>get_parallel_verses\<close> end in
  \<^verbatim>\<open>OverflowError\<close> instead of returning the empty list; so does \<^verbatim>\<open>search_verses\<close> for
  the limit 99999999999999999999.
\<close>

theorem facades_raise_overflow_error:
  "search_parse_reference ''Genesis 1:99999999999999999999''
     = Some (''Genesis'', 1, 99999999999999999999, 99999999999999999999)
   \<and> get_passage sample_canon_file sample_db ''Genesis 1:99999999999999999999'' ''KJV''
       = Inl OverflowError
   \<and> get_verse_window sample_canon_file sample_db ''Genesis 1:99999999999999999999'' ''KJV'' 2 2
       = Inl OverflowError
   \<and> get_parallel_verses sample_canon_file sample_db ''Genesis 1:99999999999999999999''
        [''KJV'', ''BSB'']
       = Inl OverflowError
   \<and> search_verses (\<lambda>pattern text. True) sample_db ''God'' 99999999999999999999 None
       = Inl OverflowError"
proof -
  have "search_parse_reference ''Genesis 1:99999999999999999999''
     = Some (''Genesis'', 1, 99999999999999999999, 99999999999999999999)"
    by code_simp
  moreover have
    "get_passage sample_canon_file sample_db ''Genesis 1:99999999999999999999'' ''KJV''
       = Inl OverflowError"
    unfolding sample_canon_file_def sample_db_def by code_simp
  moreover have
    "get_verse_window sample_canon_file sample_db ''Genesis 1:99999999999999999999'' ''KJV'' 2 2
       = Inl OverflowError"
    unfolding sample_canon_file_def sample_db_def by code_simp
  moreover have
    "get_parallel_verses sample_canon_file sample_db ''Genesis 1:99999999999999999999''
        [''KJV'', ''BSB'']
       = Inl OverflowError"
    unfolding sample_canon_file_def sample_db_def by code_simp
  moreover have
    "search_verses (\<lambda>pattern text. True) sample_db ''God'' 99999999999999999999 None
       = Inl OverflowError"
    unfolding sample_db_def by code_simp
  ultimately show ?thesis by (intro conjI)
qed

subsection \<open>Out-of-order ranges\<close>

text \<open>
  A range whose first verse is greater than its last is not rejected by the parsers, and
  \<^verbatim>\<open>get_passage\<close> and \<^verbatim>\<open>get_parallel_verses\<close> return the empty list for it when the
  integers of the reference and the book number fit the 64-bit integer of SQLite.
\<close>

lemma out_of_order_range_empty_when_stored_ints:
  "search_parse_reference ''John 3:18-16'' = Some (''John'', 3, 18, 16)
   \<and> parse_reference_range ''John 3:18-16'' = Some (''John'', 3, 18, 16)
   \<and> (\<forall>b ch vs ve. search_parse_reference ref = Some (b, ch, vs, ve) \<and> ve < vs
          \<and> sqlite_int ch \<and> sqlite_int vs \<and> sqlite_int ve
          \<and> (\<forall>num. lookup_book (build_book_lookup (load_canon cf)) b = Some num
                 \<longrightarrow> sqlite_int num)
         \<longrightarrow> get_passage cf d ref t = Inr [])
   \<and> (\<forall>b ch vs ve. parse_reference_range ref = Some (b, ch, vs, ve) \<and> ve < vs
          \<and> sqlite_int ch \<and> sqlite_int vs \<and> sqlite_int ve
          \<and> (\<forall>num. lookup_book (build_book_lookup (load_canon cf)) b = Some num
                 \<longrightarrow> sqlite_int num)
         \<longrightarrow> get_parallel_verses cf d ref ts = Inr [])"
proof -
  have e1: "search_parse_reference ''John 3:18-16'' = Some (''John'', 3, 18, 16)"
    by code_simp
  have e2: "parse_reference_range ''John 3:18-16'' = Some (''John'', 3, 18, 16)"
    by code_simp
  have p: "get_passage cf d ref t = Inr []"
    if h: "search_parse_reference ref = Some (b, ch, vs, ve)" "ve < vs"
          "sqlite_int ch" "sqlite_int vs" "sqlite_int ve"
          "\<forall>num. lookup_book (build_book_lookup (load_canon cf)) b = Some num
                 \<longrightarrow> sqlite_int num"
    for b ch vs ve
  proof (cases "lookup_book (build_book_lookup (load_canon cf)) b")
    case None
    with h(1) show ?thesis using get_passage_unresolved[of ref cf d t] by simp
  next
    case (Some num)
    with h(6) have "sqlite_int num" by simp
    with get_passage_resolved[OF h(1) Some, of d t] h(2-5) show ?thesis
      by (cases d) (simp_all add: select_passage_empty_range)
  qed
  have q: "get_parallel_verses cf d ref ts = Inr []"
    if h: "parse_reference_range ref = Some (b, ch, vs, ve)" "ve < vs"
          "sqlite_int ch" "sqlite_int vs" "sqlite_int ve"
          "\<forall>num. lookup_book (build_book_lookup (load_canon cf)) b = Some num
                 \<longrightarrow> sqlite_int num"
    for b ch vs ve
  proof (cases "lookup_book (build_book_lookup (load_canon cf)) b")
    case None
    with h(1) show ?thesis using get_parallel_verses_unresolved[of ref cf d ts] by simp
  next
    case (Some num)
    then obtain meta where m: "map_of (load_canon cf) num = Some meta"
      using lookup_book_in_canon by blast
    from Some h(6) have "sqlite_int num" by simp
    with get_parallel_verses_resolved[OF h(1) Some m, of d ts] h(2-5) show ?thesis
      by (cases d) (simp_all add: select_parallel_empty_range)
  qed
  from e1 e2 p q show ?thesis by blast
qed

text \<open>
  Claim C8 says that every reference parsed to a range whose first verse is greater than
  its last gives the empty list. \<^verbatim>\<open>"John 3:99999999999999999999-1"\<close> parses to such a range;
  its first verse does not fit the 64-bit integer of SQLite, and \<^verbatim>\<open>get_passage\<close> and
  \<^verbatim>\<open>get_parallel_verses\<close> end in \<^verbatim>\<open>OverflowError\<close> instead of returning the empty list.
\<close>

theorem out_of_order_range_raises_overflow_error:
  "search_parse_reference ''John 3:99999999999999999999-1''
     = Some (''John'', 3, 99999999999999999999, 1)
   \<and> parse_reference_range ''John 3:99999999999999999999-1''
     = Some (''John'', 3, 99999999999999999999, 1)
   \<and> (1::int) < 99999999999999999999
   \<and> get_passage sample_canon_file sample_db ''John 3:99999999999999999999-1'' ''KJV''
       = Inl OverflowError
   \<and> get_parallel_verses sample_canon_file sample_db ''John 3:99999999999999999999-1''
        [''KJV'', ''BSB'']
       = Inl OverflowError"
proof -
  have "search_parse_reference ''John 3:99999999999999999999-1''
     = Some (''John'', 3, 99999999999999999999, 1)"
    by code_simp
  moreover have "parse_reference_range ''John 3:99999999999999999999-1''
     = Some (''John'', 3, 99999999999999999999, 1)"
    by code_simp
  moreover have
    "get_passage sample_canon_file sample_db ''John 3:99999999999999999999-1'' ''KJV''
       = Inl OverflowError"
    unfolding sample_canon_file_def sample_db_def by code_simp
  moreover have
    "get_parallel_verses sample_canon_file sample_db ''John 3:99999999999999999999-1''
        [''KJV'', ''BSB'']
       = Inl OverflowError"
    unfolding sample_canon_file_def sample_db_def by code_simp
  ultimately show ?thesis by simp
qed

subsection \<open>Order and range of the selected rows\<close>

lemma select_passage_sorted: "sorted (map row_verse (select_passage t num ch vs ve tbl))"
proof -
  have "row_verse = (\<lambda>(tc, bn, bc, ch, v, txt). v)" by (simp add: row_verse_def)
  then show ?thesis by (simp add: select_passage_def)
qed

lemma select_passage_range:
  "r \<in> set (select_passage t num ch vs ve tbl) \<Longrightarrow> vs \<le> row_verse r \<and> row_verse r \<le> ve"
  by (auto simp: select_passage_def row_verse_def)

lemma select_parallel_sorted:
  "sorted (map (\<lambda>(tc, bc, ch, v, txt). (v, tc)) (select_parallel ts num ch vs ve tbl))"
  by (simp add: select_parallel_def)

lemma parallel_rows_verses: "map parallel_verse (parallel_rows bc ch vs ve rows) = [vs..ve]"
  by (simp add: parallel_rows_def parallel_verse_def comp_def)

lemma sorted_upto: "sorted [i..j]"
  by (simp add: sorted_wrt_iff_nth_less strict_sorted_iff)

lemma strict_sorted_upto: "sorted_wrt (<) [i..j]"
  by simp

lemma length_upto_int: "length [i..j] = nat (j - i + 1)"
  by simp

subsection \<open>Rows of the window\<close>

lemma get_verse_window_rows_in_window:
  assumes "context_parse_reference ref = Some (b, ch, c)"
    and "get_verse_window cf d ref t nb na = Inr rows"
    and "r \<in> set rows"
  shows "max 1 (c - nb) \<le> row_verse r \<and> row_verse r \<le> c + na"
proof (cases "lookup_book (build_book_lookup (load_canon cf)) b")
  case None
  with assms(1) have "get_verse_window cf d ref t nb na = Inr []"
    using get_verse_window_unresolved[of ref cf d t nb na] by simp
  with assms(2,3) show ?thesis by simp
next
  case (Some num)
  show ?thesis
  proof (cases d)
    case Unavailable
    with assms(2,3) show ?thesis by (simp add: get_verse_window_unavailable)
  next
    case (Table tbl)
    from get_verse_window_resolved[OF assms(1) Some, of d t nb na] Table assms(2)
    have "rows = select_passage (py_upper t) num ch (max 1 (c - nb)) (c + na) tbl"
      by (simp split: if_splits)
    with assms(3) have
      "r \<in> set (select_passage (py_upper t) num ch (max 1 (c - nb)) (c + na) tbl)"
      by simp
    from select_passage_range[OF this] show ?thesis .
  qed
qed

subsection \<open>The context window\<close>

text \<open>
  Claim C3. For a reference that parses to the centre verse \<open>c\<close> and a book that resolves,
  \<^verbatim>\<open>get_verse_window\<close> asks the table for the verses from \<open>max 1 (c - before)\<close> to
  \<open>c + after\<close> (the parameters it binds and the range it selects); the lower bound is at
  least 1, so every returned row has a verse in that window and not below 1. For \<^verbatim>\<open>"Genesis 1:1"\<close> with \<open>before = 2\<close> and \<open>after = 2\<close> the lower bound is 1 and
  every returned row has a verse from 1 to 3.
\<close>

theorem context_window_clamped:
  "(\<forall>b ch c num. context_parse_reference ref = Some (b, ch, c)
        \<and> lookup_book (build_book_lookup (load_canon cf)) b = Some num
      \<longrightarrow> get_verse_window cf (Table tbl) ref t n_before n_after
            = (if list_all sqlite_int [num, ch, max 1 (c - n_before), c + n_after]
               then Inr (select_passage (py_upper t) num ch
                           (max 1 (c - n_before)) (c + n_after) tbl)
               else Inl OverflowError))
   \<and> (\<forall>b ch c rows. context_parse_reference ref = Some (b, ch, c)
        \<and> get_verse_window cf d ref t n_before n_after = Inr rows
      \<longrightarrow> (\<forall>r \<in> set rows. max 1 (c - n_before) \<le> row_verse r
                            \<and> row_verse r \<le> c + n_after \<and> 1 \<le> row_verse r))
   \<and> 1 \<le> max 1 (c0 - n_before)
   \<and> context_parse_reference ''Genesis 1:1'' = Some (''Genesis'', 1, 1)
   \<and> max 1 (1 - 2) = (1::int)
   \<and> (\<forall>rows. get_verse_window cf d ''Genesis 1:1'' t 2 2 = Inr rows
      \<longrightarrow> (\<forall>r \<in> set rows. row_verse r \<in> {1..3}))"
proof -
  have g: "context_parse_reference ''Genesis 1:1'' = Some (''Genesis'', 1, 1)"
    by code_simp
  have a: "\<forall>b ch c num. context_parse_reference ref = Some (b, ch, c)
        \<and> lookup_book (build_book_lookup (load_canon cf)) b = Some num
      \<longrightarrow> get_verse_window cf (Table tbl) ref t n_before n_after
            = (if list_all sqlite_int [num, ch, max 1 (c - n_before), c + n_after]
               then Inr (select_passage (py_upper t) num ch
                           (max 1 (c - n_before)) (c + n_after) tbl)
               else Inl OverflowError)"
    using get_verse_window_resolved[of ref _ _ _ cf _ "Table tbl" t n_before n_after]
    by simp
  have b: "\<forall>b ch c rows. context_parse_reference ref = Some (b, ch, c)
        \<and> get_verse_window cf d ref t n_before n_after = Inr rows
      \<longrightarrow> (\<forall>r \<in> set rows. max 1 (c - n_before) \<le> row_verse r
                            \<and> row_verse r \<le> c + n_after \<and> 1 \<le> row_verse r)"
    using get_verse_window_rows_in_window[of ref _ _ _ cf d t n_before n_after] by fastforce
  have c: "\<forall>rows. get_verse_window cf d ''Genesis 1:1'' t 2 2 = Inr rows
      \<longrightarrow> (\<forall>r \<in> set rows. row_verse r \<in> {1..3})"
    using get_verse_window_rows_in_window[OF g, of cf d t 2 2] by fastforce
  from a b c g show ?thesis by simp
qed

theorem context_window_clamped_witness:
  "context_parse_reference ''Genesis 1:1'' = Some (''Genesis'', 1, 1)
   \<and> lookup_book (build_book_lookup (load_canon sample_canon_file)) ''Genesis'' = Some 1
   \<and> get_verse_window sample_canon_file sample_db ''Genesis 1:1'' ''KJV'' 2 2
       = Inr [(''KJV'', 1, ''GEN'', 1, 1, ''In the beginning''),
              (''KJV'', 1, ''GEN'', 1, 2, ''And the earth was without form''),
              (''KJV'', 1, ''GEN'', 1, 3, ''And God said'')]
   \<and> row_verse (''KJV'', 1, ''GEN'', 1, 3, ''And God said'') \<in> {1..3}"
proof -
  have g: "context_parse_reference ''Genesis 1:1'' = Some (''Genesis'', 1, 1)"
    by code_simp
  have l: "lookup_book (build_book_lookup (load_canon sample_canon_file)) ''Genesis'' = Some 1"
    unfolding sample_canon_file_def by code_simp
  have w: "get_verse_window sample_canon_file sample_db ''Genesis 1:1'' ''KJV'' 2 2
       = Inr [(''KJV'', 1, ''GEN'', 1, 1, ''In the beginning''),
              (''KJV'', 1, ''GEN'', 1, 2, ''And the earth was without form''),
              (''KJV'', 1, ''GEN'', 1, 3, ''And God said'')]"
    unfolding sample_canon_file_def sample_db_def by code_simp
  from context_window_clamped
         [of "''Genesis 1:1''" sample_canon_file "[]" "''KJV''" 2 2 sample_db 1] w
  have "row_verse (''KJV'', 1, ''GEN'', 1, 3, ''And God said'') \<in> {1..3}"
    by simp
  with g l w show ?thesis by simp
qed

subsection \<open>Order of the results\<close>

text \<open>
  Claim C7. The rows selected for a passage are in ascending order of the verse; the rows
  selected for the parallel comparison are in ascending order of the verse and, for
  equal verses, of the translation code. Every list returned by \<^verbatim>\<open>get_passage\<close> and by
  \<^verbatim>\<open>get_verse_window\<close> is sorted by verse, and the verses of the list returned by
  \<^verbatim>\<open>get_parallel_verses\<close> are ascending without repetition.
\<close>

theorem results_sorted_by_verse:
  "sorted (map row_verse (select_passage t num ch vs ve tbl))
   \<and> sorted (map (\<lambda>(tc, bc, c, v, txt). (v, tc)) (select_parallel ts num ch vs ve tbl))
   \<and> (\<forall>i j. i < j \<and> j < length (select_parallel ts num ch vs ve tbl)
        \<longrightarrow> (case (select_parallel ts num ch vs ve tbl ! i,
                    select_parallel ts num ch vs ve tbl ! j) of
               ((tc, bc, c, v, txt), (tc', bc', c', v', txt')) \<Rightarrow>
                 v < v' \<or> (v = v' \<and> tc \<le> tc')))
   \<and> (\<forall>rows. get_passage cf d ref t = Inr rows \<longrightarrow> sorted (map row_verse rows))
   \<and> (\<forall>rows. get_verse_window cf d ref t n_before n_after = Inr rows
        \<longrightarrow> sorted (map row_verse rows))
   \<and> (\<forall>rows. get_parallel_verses cf d ref ts = Inr rows
        \<longrightarrow> sorted (map parallel_verse rows) \<and> distinct (map parallel_verse rows))"
proof -
  let ?rs = "select_parallel ts num ch vs ve tbl"
  let ?k = "\<lambda>(tc, bc, c, v, txt). (v :: int, tc :: string)"
  have s: "sorted (map ?k ?rs)" by (rule select_parallel_sorted)
  have pw: "\<forall>i j. i < j \<and> j < length ?rs
        \<longrightarrow> (case (?rs ! i, ?rs ! j) of
               ((tc, bc, c, v, txt), (tc', bc', c', v', txt')) \<Rightarrow>
                 v < v' \<or> (v = v' \<and> tc \<le> tc'))"
  proof (intro allI impI)
    fix i j assume ij: "i < j \<and> j < length ?rs"
    then have "map ?k ?rs ! i \<le> map ?k ?rs ! j"
      using s by (simp add: sorted_iff_nth_mono del: nth_map)
    with ij have "?k (?rs ! i) \<le> ?k (?rs ! j)" by simp
    then show "case (?rs ! i, ?rs ! j) of
               ((tc, bc, c, v, txt), (tc', bc', c', v', txt')) \<Rightarrow>
                 v < v' \<or> (v = v' \<and> tc \<le> tc')"
      by (auto simp: less_eq_prod_def split: prod.splits)
  qed
  have p: "\<forall>rows. get_passage cf d ref t = Inr rows \<longrightarrow> sorted (map row_verse rows)"
    using get_passage_result[of cf d ref t] select_passage_sorted by auto
  have w: "\<forall>rows. get_verse_window cf d ref t n_before n_after = Inr rows
        \<longrightarrow> sorted (map row_verse rows)"
    using get_verse_window_result[of cf d ref t n_before n_after] select_passage_sorted by auto
  have q: "\<forall>rows. get_parallel_verses cf d ref ts = Inr rows
        \<longrightarrow> sorted (map parallel_verse rows) \<and> distinct (map parallel_verse rows)"
    using get_parallel_verses_result[of cf d ref ts]
    by (auto simp: parallel_rows_verses sorted_upto)
  from select_passage_sorted s pw p w q show ?thesis by blast
qed

theorem results_sorted_by_verse_witness:
  "get_passage sample_canon_file sample_db ''Genesis 1:1-4'' ''KJV''
     = Inr [(''KJV'', 1, ''GEN'', 1, 1, ''In the beginning''),
            (''KJV'', 1, ''GEN'', 1, 2, ''And the earth was without form''),
            (''KJV'', 1, ''GEN'', 1, 3, ''And God said''),
            (''KJV'', 1, ''GEN'', 1, 4, ''And God saw the light'')]
   \<and> sorted (map row_verse
               [(''KJV'', 1, ''GEN'', 1, 1, ''In the beginning''),
                (''KJV'', 1, ''GEN'', 1, 2, ''And the earth was without form''),
                (''KJV'', 1, ''GEN'', 1, 3, ''And God said''),
                (''KJV'', 1, ''GEN'', 1, 4, ''And God saw the light'')])
   \<and> select_parallel [''KJV'', ''BSB''] 1 1 1 2
        [(''KJV'', 1, ''GEN'', 1, 2, ''b''), (''KJV'', 1, ''GEN'', 1, 1, ''a''),
         (''BSB'', 1, ''GEN'', 1, 2, ''c'')]
       = [(''KJV'', ''GEN'', 1, 1, ''a''), (''BSB'', ''GEN'', 1, 2, ''c''),
          (''KJV'', ''GEN'', 1, 2, ''b'')]"
proof -
  have p: "get_passage sample_canon_file sample_db ''Genesis 1:1-4'' ''KJV''
     = Inr [(''KJV'', 1, ''GEN'', 1, 1, ''In the beginning''),
            (''KJV'', 1, ''GEN'', 1, 2, ''And the earth was without form''),
            (''KJV'', 1, ''GEN'', 1, 3, ''And God said''),
            (''KJV'', 1, ''GEN'', 1, 4, ''And God saw the light'')]"
    unfolding sample_canon_file_def sample_db_def by code_simp
  have q: "select_parallel [''KJV'', ''BSB''] 1 1 1 2
        [(''KJV'', 1, ''GEN'', 1, 2, ''b''), (''KJV'', 1, ''GEN'', 1, 1, ''a''),
         (''BSB'', 1, ''GEN'', 1, 2, ''c'')]
       = [(''KJV'', ''GEN'', 1, 1, ''a''), (''BSB'', ''GEN'', 1, 2, ''c''),
          (''KJV'', ''GEN'', 1, 2, ''b'')]"
    by code_simp
  from results_sorted_by_verse
         [of "''KJV''" 1 1 1 2 "[]" "[''KJV'']" sample_canon_file sample_db
             "''Genesis 1:1-4''" 2 2] p
  have "sorted (map row_verse
               [(''KJV'', 1, ''GEN'', 1, 1, ''In the beginning''),
                (''KJV'', 1, ''GEN'', 1, 2, ''And the earth was without form''),
                (''KJV'', 1, ''GEN'', 1, 3, ''And God said''),
                (''KJV'', 1, ''GEN'', 1, 4, ''And God saw the light'')])"
    by simp
  with p q show ?thesis by simp
qed

subsection \<open>The verse map of the parallel comparison\<close>

text \<open>\<^verbatim>\<open>verse_map.get(verse, {})\<close>\<close>

definition texts_at :: "(int \<times> (string \<times> string) list) list \<Rightarrow> int \<Rightarrow> (string \<times> string) list" where
  "texts_at verse_map verse = (case map_of verse_map verse of None \<Rightarrow> [] | Some texts \<Rightarrow> texts)"

lemma parallel_rows_alt:
  "parallel_rows bc ch vs ve rows
     = map (\<lambda>v. (bc, ch, v, texts_at (build_verse_map ch rows) v)) [vs..ve]"
  by (simp add: parallel_rows_def texts_at_def)

lemma texts_at_Nil: "texts_at [] v = []"
  by (simp add: texts_at_def)

lemma verse_map_step_None:
  "map_of (verse_map_step ch (t, b, c, v', tx) vm) v = None
     \<longleftrightarrow> map_of vm v = None \<and> \<not> (c = ch \<and> v' = v)"
  by (simp add: verse_map_step_def Let_def update_conv')

lemma verse_map_step_texts:
  "map_of (texts_at (verse_map_step ch (t, b, c, v', tx) vm) v) k
     = (if c = ch \<and> v' = v \<and> k = t then Some tx else map_of (texts_at vm v) k)"
  by (simp add: verse_map_step_def texts_at_def Let_def update_conv')

lemma fold_verse_map_None:
  "map_of (fold (verse_map_step ch) rows vm) v = None
     \<longleftrightarrow> map_of vm v = None \<and> \<not> (\<exists>t b tx. (t, b, ch, v, tx) \<in> set rows)"
proof (induction rows arbitrary: vm)
  case Nil
  then show ?case by simp
next
  case (Cons r rows)
  obtain t b c v' tx where r: "r = (t, b, c, v', tx)" by (cases r)
  show ?case
    by (simp add: Cons.IH r verse_map_step_None) blast
qed

lemma fold_verse_map_texts_None:
  "map_of (texts_at (fold (verse_map_step ch) rows vm) v) k = None
     \<longleftrightarrow> map_of (texts_at vm v) k = None \<and> \<not> (\<exists>b tx. (k, b, ch, v, tx) \<in> set rows)"
proof (induction rows arbitrary: vm)
  case Nil
  then show ?case by simp
next
  case (Cons r rows)
  obtain t b c v' tx where r: "r = (t, b, c, v', tx)" by (cases r)
  show ?case
    by (simp add: Cons.IH r verse_map_step_texts) blast
qed

lemma fold_verse_map_texts_Some:
  "map_of (texts_at (fold (verse_map_step ch) rows vm) v) k = Some tx
     \<Longrightarrow> map_of (texts_at vm v) k = Some tx \<or> (\<exists>b. (k, b, ch, v, tx) \<in> set rows)"
proof (induction rows arbitrary: vm)
  case Nil
  then show ?case by simp
next
  case (Cons r rows)
  obtain t b c v' tx' where r: "r = (t, b, c, v', tx')" by (cases r)
  from Cons.prems have
    "map_of (texts_at (fold (verse_map_step ch) rows (verse_map_step ch r vm)) v) k = Some tx"
    by simp
  from Cons.IH[OF this] show ?case
    by (auto simp: r verse_map_step_texts split: if_splits)
qed

lemma build_verse_map_None:
  "map_of (build_verse_map ch rows) v = None \<longleftrightarrow> \<not> (\<exists>t b tx. (t, b, ch, v, tx) \<in> set rows)"
  by (simp add: build_verse_map_def fold_verse_map_None)

lemma build_verse_map_texts_None:
  "map_of (texts_at (build_verse_map ch rows) v) k = None
     \<longleftrightarrow> \<not> (\<exists>b tx. (k, b, ch, v, tx) \<in> set rows)"
  by (simp add: build_verse_map_def fold_verse_map_texts_None texts_at_Nil)

lemma build_verse_map_texts_Some:
  "map_of (texts_at (build_verse_map ch rows) v) k = Some tx
     \<Longrightarrow> \<exists>b. (k, b, ch, v, tx) \<in> set rows"
  using fold_verse_map_texts_Some[of ch rows "[]" v k tx]
  by (simp add: build_verse_map_def texts_at_Nil)

lemma texts_at_no_rows:
  "\<not> (\<exists>t b tx. (t, b, ch, v, tx) \<in> set rows) \<Longrightarrow> texts_at (build_verse_map ch rows) v = []"
  using build_verse_map_None[of ch rows v] by (simp add: texts_at_def)

lemma set_select_parallel:
  "(t, b, c, v, tx) \<in> set (select_parallel ts num ch vs ve tbl)
     \<longleftrightarrow> (\<exists>bn. (t, bn, b, c, v, tx) \<in> set tbl \<and> t \<in> set ts \<and> bn = num \<and> c = ch
               \<and> vs \<le> v \<and> v \<le> ve)"
  by (auto simp: select_parallel_def image_iff)

lemma select_parallel_nonempty_range:
  assumes "select_parallel ts num ch vs ve tbl \<noteq> []"
  shows "vs \<le> ve"
proof (rule ccontr)
  assume "\<not> vs \<le> ve"
  then have "ve < vs" by simp
  from select_parallel_empty_range[OF this] assms show False by simp
qed

lemma get_parallel_verses_nonempty_table:
  assumes "parse_reference_range ref = Some (b, ch, vs, ve)"
    and "get_parallel_verses cf d ref ts = Inr rows"
    and "rows \<noteq> []"
  shows "\<exists>num meta tbl. lookup_book (build_book_lookup (load_canon cf)) b = Some num
           \<and> map_of (load_canon cf) num = Some meta \<and> d = Table tbl
           \<and> select_parallel (map py_upper ts) num ch vs ve tbl \<noteq> []
           \<and> rows = parallel_rows (code meta) ch vs ve
                      (select_parallel (map py_upper ts) num ch vs ve tbl)"
proof (cases "lookup_book (build_book_lookup (load_canon cf)) b")
  case None
  with assms(1) have "get_parallel_verses cf d ref ts = Inr []"
    using get_parallel_verses_unresolved[of ref cf d ts] by simp
  with assms(2,3) show ?thesis by simp
next
  case (Some num)
  then obtain meta where m: "map_of (load_canon cf) num = Some meta"
    using lookup_book_in_canon by blast
  show ?thesis
  proof (cases d)
    case Unavailable
    with assms(2,3) show ?thesis by (simp add: get_parallel_verses_unavailable)
  next
    case (Table tbl)
    from get_parallel_verses_resolved[OF assms(1) Some m, of d ts] assms(2,3) Table
    have "select_parallel (map py_upper ts) num ch vs ve tbl \<noteq> []
           \<and> rows = parallel_rows (code meta) ch vs ve
                      (select_parallel (map py_upper ts) num ch vs ve tbl)"
      by (auto split: if_splits)
    with Some m Table show ?thesis by simp
  qed
qed

lemma get_parallel_verses_nonempty:
  assumes "parse_reference_range ref = Some (b, ch, vs, ve)"
    and "get_parallel_verses cf d ref ts = Inr rows"
    and "rows \<noteq> []"
  shows "vs \<le> ve \<and> map parallel_verse rows = [vs..ve] \<and> int (length rows) = ve - vs + 1"
proof -
  from get_parallel_verses_nonempty_table[OF assms]
  obtain num and meta :: canon_meta and tbl where
    ne: "select_parallel (map py_upper ts) num ch vs ve tbl \<noteq> []" and
    rows: "rows = parallel_rows (code meta) ch vs ve
                    (select_parallel (map py_upper ts) num ch vs ve tbl)"
    by blast
  from ne have le: "vs \<le> ve" by (rule select_parallel_nonempty_range)
  from rows have m: "map parallel_verse rows = [vs..ve]" by (simp add: parallel_rows_verses)
  then have "length rows = length [vs..ve]" by (metis length_map)
  with le have "int (length rows) = ve - vs + 1" by simp
  with le m show ?thesis by simp
qed

lemma get_parallel_verses_untexted_verse:
  assumes "parse_reference_range ref = Some (b, ch, vs, ve)"
    and "lookup_book (build_book_lookup (load_canon cf)) b = Some num"
    and "map_of (load_canon cf) num = Some meta"
    and "get_parallel_verses cf (Table tbl) ref ts = Inr rows"
    and "rows \<noteq> []"
    and "vs \<le> v" and "v \<le> ve"
    and "\<forall>tc bc tx. tc \<in> set (map py_upper ts) \<longrightarrow> (tc, num, bc, ch, v, tx) \<notin> set tbl"
  shows "(code meta, ch, v, []) \<in> set rows"
proof -
  let ?sel = "select_parallel (map py_upper ts) num ch vs ve tbl"
  from assms(4,5) get_parallel_verses_resolved[OF assms(1-3), of "Table tbl" ts]
  have rows: "rows = parallel_rows (code meta) ch vs ve ?sel"
    by (auto split: if_splits)
  from assms(8) have "\<not> (\<exists>t bc tx. (t, bc, ch, v, tx) \<in> set ?sel)"
    by (auto simp: set_select_parallel)
  then have "texts_at (build_verse_map ch ?sel) v = []" by (rule texts_at_no_rows)
  moreover from assms(6,7) have "v \<in> set [vs..ve]" by simp
  ultimately show ?thesis
    unfolding rows parallel_rows_alt by force
qed

subsection \<open>Shape of the parallel result\<close>

text \<open>
  Claim C9. When \<^verbatim>\<open>get_parallel_verses\<close> returns a list that is not empty for a reference
  parsed to the range from \<open>vs\<close> to \<open>ve\<close>, then \<open>vs \<le> ve\<close> and the list has exactly one row
  for each verse from \<open>vs\<close> to \<open>ve\<close>, in ascending order, \<open>ve - vs + 1\<close> rows in all; a verse
  of the range for which the table has no row in any requested translation has a row with
  an empty mapping of texts. When the fetch of the statement yields no row, the result is
  the empty list.
\<close>

theorem parallel_result_covers_range:
  "(\<forall>b ch vs ve rows. parse_reference_range ref = Some (b, ch, vs, ve)
        \<and> get_parallel_verses cf d ref ts = Inr rows \<and> rows \<noteq> []
      \<longrightarrow> vs \<le> ve \<and> map parallel_verse rows = [vs..ve]
          \<and> int (length rows) = ve - vs + 1)
   \<and> (\<forall>b ch vs ve num. parse_reference_range ref = Some (b, ch, vs, ve)
        \<and> lookup_book (build_book_lookup (load_canon cf)) b = Some num
        \<and> fetchall d [num, ch, vs, ve] (select_parallel (map py_upper ts) num ch vs ve) = Inr []
      \<longrightarrow> get_parallel_verses cf d ref ts = Inr [])
   \<and> (\<forall>b ch vs ve num meta rows v. parse_reference_range ref = Some (b, ch, vs, ve)
        \<and> lookup_book (build_book_lookup (load_canon cf)) b = Some num
        \<and> map_of (load_canon cf) num = Some meta
        \<and> get_parallel_verses cf (Table tbl) ref ts = Inr rows \<and> rows \<noteq> []
        \<and> vs \<le> v \<and> v \<le> ve
        \<and> (\<forall>tc bc tx. tc \<in> set (map py_upper ts) \<longrightarrow> (tc, num, bc, ch, v, tx) \<notin> set tbl)
      \<longrightarrow> (code meta, ch, v, []) \<in> set rows)"
proof -
  have a: "\<forall>b ch vs ve rows. parse_reference_range ref = Some (b, ch, vs, ve)
        \<and> get_parallel_verses cf d ref ts = Inr rows \<and> rows \<noteq> []
      \<longrightarrow> vs \<le> ve \<and> map parallel_verse rows = [vs..ve]
          \<and> int (length rows) = ve - vs + 1"
    using get_parallel_verses_nonempty[of ref _ _ _ _ cf d ts] by blast
  have b: "\<forall>b ch vs ve num. parse_reference_range ref = Some (b, ch, vs, ve)
        \<and> lookup_book (build_book_lookup (load_canon cf)) b = Some num
        \<and> fetchall d [num, ch, vs, ve] (select_parallel (map py_upper ts) num ch vs ve) = Inr []
      \<longrightarrow> get_parallel_verses cf d ref ts = Inr []"
  proof (intro allI impI)
    fix b ch vs ve num
    assume h: "parse_reference_range ref = Some (b, ch, vs, ve)
        \<and> lookup_book (build_book_lookup (load_canon cf)) b = Some num
        \<and> fetchall d [num, ch, vs, ve] (select_parallel (map py_upper ts) num ch vs ve) = Inr []"
    then obtain meta where m: "map_of (load_canon cf) num = Some meta"
      using lookup_book_in_canon by blast
    from h have f:
      "fetchall d [num, ch, vs, ve] (select_parallel (map py_upper ts) num ch vs ve) = Inr []"
      by simp
    from h get_parallel_verses_resolved[of ref b ch vs ve cf num meta d ts] m
    have "get_parallel_verses cf d ref ts
           = (if ts = [] then Inr []
              else case d of
                Unavailable \<Rightarrow> Inr []
              | Table tbl \<Rightarrow>
                  if \<not> list_all sqlite_int [num, ch, vs, ve] then Inl OverflowError
                  else if select_parallel (map py_upper ts) num ch vs ve tbl = [] then Inr []
                  else Inr (parallel_rows (code meta) ch vs ve
                              (select_parallel (map py_upper ts) num ch vs ve tbl)))"
      by simp
    with f show "get_parallel_verses cf d ref ts = Inr []"
      by (cases d) (auto simp: fetchall_def split: if_splits)
  qed
  have c: "\<forall>b ch vs ve num meta rows v. parse_reference_range ref = Some (b, ch, vs, ve)
        \<and> lookup_book (build_book_lookup (load_canon cf)) b = Some num
        \<and> map_of (load_canon cf) num = Some meta
        \<and> get_parallel_verses cf (Table tbl) ref ts = Inr rows \<and> rows \<noteq> []
        \<and> vs \<le> v \<and> v \<le> ve
        \<and> (\<forall>tc bc tx. tc \<in> set (map py_upper ts) \<longrightarrow> (tc, num, bc, ch, v, tx) \<notin> set tbl)
      \<longrightarrow> (code meta, ch, v, []) \<in> set rows"
    using get_parallel_verses_untexted_verse[of ref _ _ _ _ cf _ _ tbl ts] by blast
  from a b c show ?thesis by (intro conjI)
qed

theorem parallel_result_covers_range_witness:
  "parse_reference_range ''Genesis 1:1-3'' = Some (''Genesis'', 1, 1, 3)
   \<and> get_parallel_verses sample_canon_file sample_db ''Genesis 1:1-3'' [''BSB'']
       = Inr [(''GEN'', 1, 1, []),
              (''GEN'', 1, 2, [(''BSB'', ''Now the earth was formless'')]),
              (''GEN'', 1, 3, [])]
   \<and> map parallel_verse
        [(''GEN'', 1, 1, []),
         (''GEN'', 1, 2, [(''BSB'', ''Now the earth was formless'')]),
         (''GEN'', 1, 3, [])] = [1..3]"
proof -
  have p: "parse_reference_range ''Genesis 1:1-3'' = Some (''Genesis'', 1, 1, 3)"
    by code_simp
  have q: "get_parallel_verses sample_canon_file sample_db ''Genesis 1:1-3'' [''BSB'']
       = Inr [(''GEN'', 1, 1, []),
              (''GEN'', 1, 2, [(''BSB'', ''Now the earth was formless'')]),
              (''GEN'', 1, 3, [])]"
    unfolding sample_canon_file_def sample_db_def by code_simp
  from parallel_result_covers_range
         [of "''Genesis 1:1-3''" sample_canon_file sample_db "[''BSB'']" "[]"] p q
  have "map parallel_verse
        [(''GEN'', 1, 1, []),
         (''GEN'', 1, 2, [(''BSB'', ''Now the earth was formless'')]),
         (''GEN'', 1, 3, [])] = [1..3]"
    by blast
  with p q show ?thesis by blast
qed

subsection \<open>Translations that lack a verse\<close>

lemma get_parallel_verses_no_entry:
  assumes "parse_reference_range ref = Some (b, ch, vs, ve)"
    and "lookup_book (build_book_lookup (load_canon cf)) b = Some num"
    and "get_parallel_verses cf (Table tbl) ref ts = Inr rows"
    and "(bc, c, v, texts) \<in> set rows"
    and "\<forall>bk tx. (k, num, bk, ch, v, tx) \<notin> set tbl"
  shows "map_of texts k = None"
proof -
  let ?sel = "select_parallel (map py_upper ts) num ch vs ve tbl"
  from assms(4) have "rows \<noteq> []" by auto
  from get_parallel_verses_nonempty_table[OF assms(1,3) this] assms(2)
  obtain meta :: canon_meta where rows: "rows = parallel_rows (code meta) ch vs ve ?sel"
    by auto
  from assms(4) have "texts = texts_at (build_verse_map ch ?sel) v"
    unfolding rows parallel_rows_alt by auto
  moreover from assms(5) have "\<not> (\<exists>b0 tx. (k, b0, ch, v, tx) \<in> set ?sel)"
    by (auto simp: set_select_parallel)
  ultimately show ?thesis by (simp add: build_verse_map_texts_None)
qed

lemma print_parallel_placeholder:
  assumes "(bc, c, v, texts) \<in> set rows"
    and "k \<in> set ts"
    and "map_of texts (py_upper k) = None"
  shows "''  ['' @ py_upper k @ ''] (missing in this translation)''
           \<in> set (print_parallel cf ref ts rows)"
proof -
  from assms(1) have ne: "rows \<noteq> []" by auto
  let ?line = "\<lambda>texts c. ''  ['' @ c @ ''] ''
                 @ (case map_of texts c of
                      None \<Rightarrow> ''(missing in this translation)''
                    | Some text \<Rightarrow> text)"
  from assms(2,3) have
    "''  ['' @ py_upper k @ ''] (missing in this translation)''
       \<in> set (map (?line texts) (map py_upper ts))"
    by (auto simp: image_iff intro!: bexI[of _ k])
  with assms(1) ne show ?thesis
    unfolding print_parallel_def Let_def
    by (auto simp: image_iff intro!: bexI[of _ "(bc, c, v, texts)"])
qed

text \<open>
  Claim C2, as stated, fails. With the sample data only KJV has John 3:16;
  \<^verbatim>\<open>get_parallel_verses\<close> returns one row for verse 16 whose mapping holds the KJV text and
  has no entry for BSB: the text of BSB in the returned row is not the placeholder.
\<close>

theorem parallel_record_lacks_placeholder:
  "get_parallel_verses sample_canon_file sample_db ''John 3:16'' [''KJV'', ''BSB'']
     = Inr [(''JHN'', 3, 16, [(''KJV'', ''For God so loved the world'')])]
   \<and> map_of [(''KJV'', ''For God so loved the world'')] ''BSB''
       \<noteq> Some ''(missing in this translation)''"
proof -
  have "get_parallel_verses sample_canon_file sample_db ''John 3:16'' [''KJV'', ''BSB'']
     = Inr [(''JHN'', 3, 16, [(''KJV'', ''For God so loved the world'')])]"
    unfolding sample_canon_file_def sample_db_def by code_simp
  then show ?thesis by simp
qed

text \<open>
  Claim C2, amended. For \<^verbatim>\<open>"John 3:16"\<close> over KJV and BSB, where only KJV has the verse,
  \<^verbatim>\<open>get_parallel_verses\<close> returns exactly one row, for verse 16, whose mapping holds the KJV
  text and no entry for BSB, and \<^verbatim>\<open>print_parallel\<close> writes the placeholder
  \<^verbatim>\<open>(missing in this translation)\<close> for BSB. In general the mapping of a returned row has
  no entry for a translation that has no row for that book, chapter and verse in the table,
  and \<^verbatim>\<open>print_parallel\<close> writes the placeholder line for every requested translation that
  has no entry in the mapping of a row.
\<close>

theorem placeholder_substituted_on_display:
  "get_parallel_verses sample_canon_file sample_db ''John 3:16'' [''KJV'', ''BSB'']
     = Inr [(''JHN'', 3, 16, [(''KJV'', ''For God so loved the world'')])]
   \<and> print_parallel sample_canon_file ''John 3:16'' [''KJV'', ''BSB'']
         [(''JHN'', 3, 16, [(''KJV'', ''For God so loved the world'')])]
       = [''John 3:16'',
          ''  [KJV] For God so loved the world'',
          ''  [BSB] (missing in this translation)'',
          []]
   \<and> (\<forall>b ch vs ve num rows bc c v texts k.
         parse_reference_range ref = Some (b, ch, vs, ve)
         \<and> lookup_book (build_book_lookup (load_canon cf)) b = Some num
         \<and> get_parallel_verses cf (Table tbl) ref ts = Inr rows
         \<and> (bc, c, v, texts) \<in> set rows
         \<and> (\<forall>bk tx. (k, num, bk, ch, v, tx) \<notin> set tbl)
       \<longrightarrow> map_of texts k = None)
   \<and> (\<forall>rows bc c v texts k.
         (bc, c, v, texts) \<in> set rows \<and> k \<in> set ts \<and> map_of texts (py_upper k) = None
       \<longrightarrow> ''  ['' @ py_upper k @ ''] (missing in this translation)''
             \<in> set (print_parallel cf ref ts rows))"
proof -
  have a: "get_parallel_verses sample_canon_file sample_db ''John 3:16'' [''KJV'', ''BSB'']
     = Inr [(''JHN'', 3, 16, [(''KJV'', ''For God so loved the world'')])]"
    unfolding sample_canon_file_def sample_db_def by code_simp
  have b: "print_parallel sample_canon_file ''John 3:16'' [''KJV'', ''BSB'']
         [(''JHN'', 3, 16, [(''KJV'', ''For God so loved the world'')])]
       = [''John 3:16'',
          ''  [KJV] For God so loved the world'',
          ''  [BSB] (missing in this translation)'',
          []]"
    unfolding sample_canon_file_def by code_simp
  have c: "\<forall>b ch vs ve num rows bc c v texts k.
         parse_reference_range ref = Some (b, ch, vs, ve)
         \<and> lookup_book (build_book_lookup (load_canon cf)) b = Some num
         \<and> get_parallel_verses cf (Table tbl) ref ts = Inr rows
         \<and> (bc, c, v, texts) \<in> set rows
         \<and> (\<forall>bk tx. (k, num, bk, ch, v, tx) \<notin> set tbl)
       \<longrightarrow> map_of texts k = None"
    using get_parallel_verses_no_entry[of ref _ _ _ _ cf _ tbl ts] by blast
  have d: "\<forall>rows bc c v texts k.
         (bc, c, v, texts) \<in> set rows \<and> k \<in> set ts \<and> map_of texts (py_upper k) = None
       \<longrightarrow> ''  ['' @ py_upper k @ ''] (missing in this translation)''
             \<in> set (print_parallel cf ref ts rows)"
    using print_parallel_placeholder[of _ _ _ _ _ _ ts cf ref] by blast
  from a b c d show ?thesis by blast
qed

theorem placeholder_substituted_on_display_witness:
  "parse_reference_range ''Genesis 1:1-3'' = Some (''Genesis'', 1, 1, 3)
   \<and> lookup_book (build_book_lookup (load_canon sample_canon_file)) ''Genesis'' = Some 1
   \<and> get_parallel_verses sample_canon_file
        (Table [(''KJV'', 1, ''GEN'', 1, 1, ''In the beginning''),
                (''BSB'', 1, ''GEN'', 1, 2, ''Now the earth was formless'')])
        ''Genesis 1:1-3'' [''kjv'', ''bsb'']
       = Inr [(''GEN'', 1, 1, [(''KJV'', ''In the beginning'')]),
              (''GEN'', 1, 2, [(''BSB'', ''Now the earth was formless'')]),
              (''GEN'', 1, 3, [])]
   \<and> map_of [(''KJV'', ''In the beginning'')] ''BSB'' = None
   \<and> ''  [BSB] (missing in this translation)''
       \<in> set (print_parallel sample_canon_file ''Genesis 1:1-3'' [''kjv'', ''bsb'']
                [(''GEN'', 1, 1, [(''KJV'', ''In the beginning'')]),
                 (''GEN'', 1, 2, [(''BSB'', ''Now the earth was formless'')]),
                 (''GEN'', 1, 3, [])])"
proof -
  let ?tbl = "[(''KJV'', 1, ''GEN'', 1, 1, ''In the beginning''),
               (''BSB'', 1, ''GEN'', 1, 2, ''Now the earth was formless'')] :: VerseRow list"
  let ?rows = "[(''GEN'', 1, 1, [(''KJV'', ''In the beginning'')]),
                (''GEN'', 1, 2, [(''BSB'', ''Now the earth was formless'')]),
                (''GEN'', 1, 3, [])] :: ParallelRow list"
  have p: "parse_reference_range ''Genesis 1:1-3'' = Some (''Genesis'', 1, 1, 3)"
    by code_simp
  have l: "lookup_book (build_book_lookup (load_canon sample_canon_file)) ''Genesis'' = Some 1"
    unfolding sample_canon_file_def by code_simp
  have g: "get_parallel_verses sample_canon_file (Table ?tbl) ''Genesis 1:1-3'' [''kjv'', ''bsb'']
             = Inr ?rows"
    unfolding sample_canon_file_def by code_simp
  have u: "py_upper ''bsb'' = ''BSB''" by code_simp
  have n: "\<forall>bk tx. (''BSB'', 1, bk, 1, 1, tx) \<notin> set ?tbl" by simp
  have m: "(''GEN'', 1, 1, [(''KJV'', ''In the beginning'')]) \<in> set ?rows" by simp
  note t = placeholder_substituted_on_display
             [of "''Genesis 1:1-3''" sample_canon_file ?tbl "[''kjv'', ''bsb'']"]
  from t p l g m n have e: "map_of [(''KJV'', ''In the beginning'')] ''BSB'' = None"
    by blast
  have k: "''bsb'' \<in> set [''kjv'', ''bsb'']" by simp
  from e u have e': "map_of [(''KJV'', ''In the beginning'')] (py_upper ''bsb'') = None"
    by simp
  from t m k e' have
    "''  ['' @ py_upper ''bsb'' @ ''] (missing in this translation)''
       \<in> set (print_parallel sample_canon_file ''Genesis 1:1-3'' [''kjv'', ''bsb''] ?rows)"
    by blast
  then have
    "''  [BSB] (missing in this translation)''
       \<in> set (print_parallel sample_canon_file ''Genesis 1:1-3'' [''kjv'', ''bsb''] ?rows)"
    by (simp add: u)
  with p l g e show ?thesis by blast
qed

subsection \<open>Book resolution and letter case\<close>

text \<open>The keys under which \<^verbatim>\<open>_build_book_lookup\<close> writes one book.\<close>

definition book_keys :: "canon_meta \<Rightarrow> string set" where
  "book_keys meta = {code meta, py_lower (code meta), name meta, py_lower (name meta)}"

text \<open>
  No two books with different numbers have a code or a name that agree up to letter case.
\<close>

definition case_distinct :: "canon \<Rightarrow> bool" where
  "case_distinct canon =
     list_all (\<lambda>(num, meta).
       list_all (\<lambda>(num', meta').
           num = num'
           \<or> (py_lower (code meta) \<noteq> py_lower (code meta')
              \<and> py_lower (code meta) \<noteq> py_lower (name meta')
              \<and> py_lower (name meta) \<noteq> py_lower (code meta')
              \<and> py_lower (name meta) \<noteq> py_lower (name meta')))
         canon)
       canon"

text \<open>
  The resolver as the specification words it: the token is matched as it is against the
  codes and names of the canon; when no book matches, the token in lower case is matched
  against the codes and names in lower case.
\<close>

definition resolve_spec :: "canon \<Rightarrow> string \<Rightarrow> int option" where
  "resolve_spec canon token =
     (case find (\<lambda>(num, meta). token = code meta \<or> token = name meta) canon of
        Some (num, meta) \<Rightarrow> Some num
      | None \<Rightarrow>
          (case find (\<lambda>(num, meta). py_lower token = py_lower (code meta)
                                   \<or> py_lower token = py_lower (name meta)) canon of
             Some (num, meta) \<Rightarrow> Some num
           | None \<Rightarrow> None))"

lemma lookup_step_apply:
  "lookup_step (num, meta) m k = (if k \<in> book_keys meta then Some num else m k)"
  by (auto simp: lookup_step_def book_keys_def)

lemma fold_lookup_step_sound:
  "fold lookup_step canon m k = Some n
     \<Longrightarrow> (\<exists>meta. (n, meta) \<in> set canon \<and> k \<in> book_keys meta) \<or> m k = Some n"
proof (induction canon arbitrary: m)
  case Nil
  then show ?case by simp
next
  case (Cons a canon)
  obtain num and meta :: canon_meta where a: "a = (num, meta)" by (cases a)
  from Cons.prems have "fold lookup_step canon (lookup_step a m) k = Some n" by simp
  from Cons.IH[OF this] show ?case
    by (auto simp: a lookup_step_apply split: if_splits)
qed

lemma fold_lookup_step_complete:
  "m k \<noteq> None \<or> (\<exists>n meta. (n, meta) \<in> set canon \<and> k \<in> book_keys meta)
     \<Longrightarrow> fold lookup_step canon m k \<noteq> None"
proof (induction canon arbitrary: m)
  case Nil
  then show ?case by simp
next
  case (Cons a canon)
  obtain num and meta' :: canon_meta where a: "a = (num, meta')" by (cases a)
  from Cons.prems have
    "lookup_step a m k \<noteq> None \<or> (\<exists>n meta. (n, meta) \<in> set canon \<and> k \<in> book_keys meta)"
    by (auto simp: a lookup_step_apply)
  from Cons.IH[of "lookup_step a m", OF this] show ?case by simp
qed

lemma build_book_lookup_sound:
  "build_book_lookup canon k = Some n \<Longrightarrow> \<exists>meta. (n, meta) \<in> set canon \<and> k \<in> book_keys meta"
  using fold_lookup_step_sound[of canon Map.empty k n] by (simp add: build_book_lookup_alt)

lemma build_book_lookup_complete:
  "(n, meta) \<in> set canon \<Longrightarrow> k \<in> book_keys meta \<Longrightarrow> build_book_lookup canon k \<noteq> None"
  using fold_lookup_step_complete[of Map.empty k canon] by (auto simp: build_book_lookup_alt)

lemma book_keys_lower:
  "k \<in> book_keys meta \<Longrightarrow> py_lower k = py_lower (code meta) \<or> py_lower k = py_lower (name meta)"
  by (auto simp: book_keys_def py_lower_idem)

lemma case_distinctD:
  assumes "case_distinct canon" and "(n, meta) \<in> set canon" and "(n', meta') \<in> set canon"
    and "py_lower k = py_lower (code meta) \<or> py_lower k = py_lower (name meta)"
    and "py_lower k = py_lower (code meta') \<or> py_lower k = py_lower (name meta')"
  shows "n = n'"
proof -
  from assms(1,2,3) have
    "n = n' \<or> (py_lower (code meta) \<noteq> py_lower (code meta')
              \<and> py_lower (code meta) \<noteq> py_lower (name meta')
              \<and> py_lower (name meta) \<noteq> py_lower (code meta')
              \<and> py_lower (name meta) \<noteq> py_lower (name meta'))"
    unfolding case_distinct_def list_all_iff by fastforce
  with assms(4,5) show ?thesis by auto
qed

lemma build_book_lookup_iff:
  assumes "case_distinct canon"
  shows "build_book_lookup canon k = Some n
           \<longleftrightarrow> (\<exists>meta. (n, meta) \<in> set canon \<and> k \<in> book_keys meta)"
proof
  assume "build_book_lookup canon k = Some n"
  then show "\<exists>meta. (n, meta) \<in> set canon \<and> k \<in> book_keys meta"
    by (rule build_book_lookup_sound)
next
  assume "\<exists>meta. (n, meta) \<in> set canon \<and> k \<in> book_keys meta"
  then obtain meta :: canon_meta where m: "(n, meta) \<in> set canon" "k \<in> book_keys meta"
    by blast
  then obtain n' where n': "build_book_lookup canon k = Some n'"
    using build_book_lookup_complete by blast
  then obtain meta' :: canon_meta where m': "(n', meta') \<in> set canon" "k \<in> book_keys meta'"
    using build_book_lookup_sound by blast
  from case_distinctD[OF assms m(1) m'(1) book_keys_lower[OF m(2)] book_keys_lower[OF m'(2)]]
  show "build_book_lookup canon k = Some n" using n' by simp
qed

lemma lookup_book_iff:
  assumes "case_distinct canon"
  shows "lookup_book (build_book_lookup canon) t = Some n
           \<longleftrightarrow> (\<exists>meta. (n, meta) \<in> set canon
                 \<and> (py_lower t = py_lower (code meta) \<or> py_lower t = py_lower (name meta)))"
    (is "?L \<longleftrightarrow> ?R")
proof
  assume ?L
  then have "build_book_lookup canon t = Some n \<or> build_book_lookup canon (py_lower t) = Some n"
    by (auto simp: lookup_book_def split: option.splits)
  then obtain k and meta :: canon_meta where
    "k = t \<or> k = py_lower t" "(n, meta) \<in> set canon" "k \<in> book_keys meta"
    using build_book_lookup_sound by blast
  then show ?R using book_keys_lower[of k meta] by (auto simp: py_lower_idem)
next
  assume ?R
  then obtain meta :: canon_meta where m: "(n, meta) \<in> set canon"
    and l: "py_lower t = py_lower (code meta) \<or> py_lower t = py_lower (name meta)"
    by blast
  then have k: "py_lower t \<in> book_keys meta" by (auto simp: book_keys_def)
  with m have low: "build_book_lookup canon (py_lower t) = Some n"
    using build_book_lookup_iff[OF assms] by blast
  show ?L
  proof (cases "build_book_lookup canon t")
    case None
    with low show ?thesis by (simp add: lookup_book_def)
  next
    case (Some n')
    then obtain meta' :: canon_meta where m': "(n', meta') \<in> set canon" "t \<in> book_keys meta'"
      using build_book_lookup_sound by blast
    from case_distinctD[OF assms m m'(1) l book_keys_lower[OF m'(2)]] Some
    show ?thesis by (simp add: lookup_book_def)
  qed
qed

lemma lookup_book_case_insensitive:
  assumes "case_distinct canon" and "py_lower t1 = py_lower t2"
  shows "lookup_book (build_book_lookup canon) t1 = lookup_book (build_book_lookup canon) t2"
proof -
  have "\<forall>n. lookup_book (build_book_lookup canon) t1 = Some n
          \<longleftrightarrow> lookup_book (build_book_lookup canon) t2 = Some n"
    by (simp add: lookup_book_iff[OF assms(1)] assms(2))
  then show ?thesis by (metis not_None_eq)
qed

lemma find_Some_pair:
  "find P xs = Some x \<Longrightarrow> x \<in> set xs \<and> P x"
  by (auto simp: find_Some_iff)

lemma resolve_spec_iff:
  assumes "case_distinct canon"
  shows "resolve_spec canon t = Some n
           \<longleftrightarrow> (\<exists>meta. (n, meta) \<in> set canon
                 \<and> (py_lower t = py_lower (code meta) \<or> py_lower t = py_lower (name meta)))"
    (is "?L \<longleftrightarrow> ?R")
proof
  assume L: ?L
  let ?P = "\<lambda>(num, meta :: canon_meta). t = code meta \<or> t = name meta"
  let ?Q = "\<lambda>(num, meta :: canon_meta). py_lower t = py_lower (code meta)
                             \<or> py_lower t = py_lower (name meta)"
  show ?R
  proof (cases "find ?P canon")
    case (Some x)
    obtain n' and meta' :: canon_meta where x: "x = (n', meta')" by (cases x)
    from L Some x have "n' = n" by (simp add: resolve_spec_def)
    moreover from find_Some_pair[OF Some] x have
      "(n', meta') \<in> set canon" "t = code meta' \<or> t = name meta'" by auto
    ultimately show ?thesis by auto
  next
    case None
    with L obtain x where q: "find ?Q canon = Some x"
      by (cases "find ?Q canon") (auto simp: resolve_spec_def)
    obtain n' and meta' :: canon_meta where x: "x = (n', meta')" by (cases x)
    from L None q x have "n' = n" by (simp add: resolve_spec_def)
    moreover from find_Some_pair[OF q] x have
      "(n', meta') \<in> set canon"
      "py_lower t = py_lower (code meta') \<or> py_lower t = py_lower (name meta')" by auto
    ultimately show ?thesis by auto
  qed
next
  assume ?R
  then obtain meta :: canon_meta where m: "(n, meta) \<in> set canon"
    and l: "py_lower t = py_lower (code meta) \<or> py_lower t = py_lower (name meta)"
    by blast
  let ?P = "\<lambda>(num, meta :: canon_meta). t = code meta \<or> t = name meta"
  let ?Q = "\<lambda>(num, meta :: canon_meta). py_lower t = py_lower (code meta)
                             \<or> py_lower t = py_lower (name meta)"
  show ?L
  proof (cases "find ?P canon")
    case (Some x)
    obtain n' and meta' :: canon_meta where x: "x = (n', meta')" by (cases x)
    from find_Some_pair[OF Some] x have
      "(n', meta') \<in> set canon" "t = code meta' \<or> t = name meta'" by auto
    then have "n = n'"
      using case_distinctD[OF assms m _ l, of n' meta'] by auto
    with Some x show ?thesis by (simp add: resolve_spec_def)
  next
    case None
    from m l have "\<exists>x \<in> set canon. ?Q x" by auto
    then obtain x where q: "find ?Q canon = Some x"
      by (cases "find ?Q canon") (auto simp: find_None_iff)
    obtain n' and meta' :: canon_meta where x: "x = (n', meta')" by (cases x)
    from find_Some_pair[OF q] x have
      "(n', meta') \<in> set canon"
      "py_lower t = py_lower (code meta') \<or> py_lower t = py_lower (name meta')" by auto
    then have "n = n'"
      using case_distinctD[OF assms m _ l, of n' meta'] by auto
    with None q x show ?thesis by (simp add: resolve_spec_def)
  qed
qed

lemma lookup_book_refines_spec:
  assumes "case_distinct canon"
  shows "lookup_book (build_book_lookup canon) t = resolve_spec canon t"
proof -
  have "\<forall>n. lookup_book (build_book_lookup canon) t = Some n
          \<longleftrightarrow> resolve_spec canon t = Some n"
    by (simp add: lookup_book_iff[OF assms] resolve_spec_iff[OF assms])
  then show ?thesis by (metis not_None_eq)
qed

lemma resolve_book_lookup_book:
  "resolve_book t lookup = map_option (\<lambda>n. (n, None)) (lookup_book lookup t)"
  by (simp add: resolve_book_def lookup_book_def Let_def split: option.splits)

text \<open>
  Claim C6, as stated, fails: in a canon whose first book is named \<^verbatim>\<open>Genesis\<close> and whose
  second book is named \<^verbatim>\<open>GENESIS\<close>, the tokens \<^verbatim>\<open>Genesis\<close> and \<^verbatim>\<open>GENESIS\<close> differ only in
  letter case and resolve to the book numbers 1 and 2.
\<close>

theorem case_variants_resolve_differently:
  "py_lower ''Genesis'' = py_lower ''GENESIS''
   \<and> lookup_book
        (build_book_lookup
           (load_canon (Some [(1, ''GEN'', ''Genesis'', None), (2, ''EXO'', ''GENESIS'', None)])))
        ''Genesis'' = Some 1
   \<and> lookup_book
        (build_book_lookup
           (load_canon (Some [(1, ''GEN'', ''Genesis'', None), (2, ''EXO'', ''GENESIS'', None)])))
        ''GENESIS'' = Some 2"
  by code_simp

text \<open>
  Claim C6, amended. The resolver (the loop of the query functions and
  \<^verbatim>\<open>_resolve_book\<close> alike) looks the token up as it is in the book lookup and, when it is
  absent, looks up the token in lower case. When no two different books of the canon have
  codes or names that agree up to letter case, this is the resolution of the
  specification (exact match against codes and names, then the match in lower case), and
  two tokens that differ only in letter case resolve to the same book number or are both
  not found; \<^verbatim>\<open>Genesis\<close> and \<^verbatim>\<open>genesis\<close> both resolve to book 1 of the sample canon.
\<close>

theorem case_insensitive_resolution:
  "lookup_book (build_book_lookup canon) token
     = (case build_book_lookup canon token of
          Some num \<Rightarrow> Some num
        | None \<Rightarrow> build_book_lookup canon (py_lower token))
   \<and> resolve_book token (build_book_lookup canon)
       = map_option (\<lambda>num. (num, None)) (lookup_book (build_book_lookup canon) token)
   \<and> (case_distinct canon
        \<longrightarrow> lookup_book (build_book_lookup canon) token = resolve_spec canon token)
   \<and> (case_distinct canon \<and> py_lower token = py_lower token'
        \<longrightarrow> lookup_book (build_book_lookup canon) token
            = lookup_book (build_book_lookup canon) token')
   \<and> case_distinct (load_canon sample_canon_file)
   \<and> lookup_book (build_book_lookup (load_canon sample_canon_file)) ''Genesis'' = Some 1
   \<and> lookup_book (build_book_lookup (load_canon sample_canon_file)) ''genesis'' = Some 1"
proof -
  have a: "lookup_book (build_book_lookup canon) token
     = (case build_book_lookup canon token of
          Some num \<Rightarrow> Some num
        | None \<Rightarrow> build_book_lookup canon (py_lower token))"
    by (simp add: lookup_book_def split: option.splits)
  have b: "resolve_book token (build_book_lookup canon)
       = map_option (\<lambda>num. (num, None)) (lookup_book (build_book_lookup canon) token)"
    by (rule resolve_book_lookup_book)
  have c: "case_distinct (load_canon sample_canon_file)"
    unfolding sample_canon_file_def by code_simp
  have d: "lookup_book (build_book_lookup (load_canon sample_canon_file)) ''Genesis'' = Some 1"
    unfolding sample_canon_file_def by code_simp
  have e: "lookup_book (build_book_lookup (load_canon sample_canon_file)) ''genesis'' = Some 1"
    unfolding sample_canon_file_def by code_simp
  from a b c d e lookup_book_refines_spec[of canon token]
       lookup_book_case_insensitive[of canon token token']
  show ?thesis by simp
qed

theorem case_insensitive_resolution_witness:
  "case_distinct (load_canon sample_canon_file)
   \<and> py_lower ''JOHN'' = py_lower ''jOhn''
   \<and> lookup_book (build_book_lookup (load_canon sample_canon_file)) ''JOHN'' = Some 43
   \<and> lookup_book (build_book_lookup (load_canon sample_canon_file)) ''jOhn'' = Some 43
   \<and> resolve_spec (load_canon sample_canon_file) ''JOHN'' = Some 43"
proof -
  note t = case_insensitive_resolution [of "load_canon sample_canon_file" "''JOHN''" "''jOhn''"]
  have c: "case_distinct (load_canon sample_canon_file)"
    unfolding sample_canon_file_def by code_simp
  have l: "py_lower ''JOHN'' = py_lower ''jOhn''" by code_simp
  have j: "lookup_book (build_book_lookup (load_canon sample_canon_file)) ''JOHN'' = Some 43"
    unfolding sample_canon_file_def by code_simp
  from t c l have
    "lookup_book (build_book_lookup (load_canon sample_canon_file)) ''JOHN''
       = lookup_book (build_book_lookup (load_canon sample_canon_file)) ''jOhn''"
    by blast
  with j have
    "lookup_book (build_book_lookup (load_canon sample_canon_file)) ''jOhn'' = Some 43"
    by simp
  moreover from t c have
    "lookup_book (build_book_lookup (load_canon sample_canon_file)) ''JOHN''
       = resolve_spec (load_canon sample_canon_file) ''JOHN''"
    by blast
  with j have "resolve_spec (load_canon sample_canon_file) ''JOHN'' = Some 43"
    by simp
  ultimately show ?thesis using c l j by simp
qed

subsection \<open>Stripping, searching and splitting strings\<close>

lemma strip_Nil [simp]: "strip [] = []"
  by (simp add: strip_def lstrip_def rstrip_def)

lemma rstrip_eq_Nil_iff: "rstrip s = [] \<longleftrightarrow> (\<forall>c \<in> set s. is_space c)"
  by (auto simp: rstrip_def dropWhile_eq_Nil_conv)

lemma rstrip_unchanged: "s \<noteq> [] \<Longrightarrow> \<not> is_space (last s) \<Longrightarrow> rstrip s = s"
  by (cases s rule: rev_cases) (simp_all add: rstrip_def)

lemma rstrip_append_unchanged: "t \<noteq> [] \<Longrightarrow> \<not> is_space (last t) \<Longrightarrow> rstrip (s @ t) = s @ t"
  by (rule rstrip_unchanged) simp_all

lemma lstrip_unchanged: "s \<noteq> [] \<Longrightarrow> \<not> is_space (hd s) \<Longrightarrow> lstrip s = s"
  by (cases s) (simp_all add: lstrip_def)

lemma rstrip_last: "rstrip s \<noteq> [] \<Longrightarrow> \<not> is_space (last (rstrip s))"
proof -
  assume ne: "rstrip s \<noteq> []"
  then have "dropWhile is_space (rev s) \<noteq> []" by (simp add: rstrip_def)
  then have "\<not> is_space (hd (dropWhile is_space (rev s)))" by (rule hd_dropWhile)
  with ne show ?thesis by (simp add: rstrip_def last_rev)
qed

lemma lstrip_hd: "lstrip s \<noteq> [] \<Longrightarrow> \<not> is_space (hd (lstrip s))"
  unfolding lstrip_def by (rule hd_dropWhile)

lemma lstrip_last: "lstrip s \<noteq> [] \<Longrightarrow> last (lstrip s) = last s"
proof -
  assume ne: "lstrip s \<noteq> []"
  have "s = takeWhile is_space s @ lstrip s" by (simp add: lstrip_def)
  then have "last s = last (takeWhile is_space s @ lstrip s)" by simp
  with ne show ?thesis by simp
qed

lemma strip_hd: "strip s \<noteq> [] \<Longrightarrow> \<not> is_space (hd (strip s))"
  unfolding strip_def by (rule lstrip_hd)

lemma strip_last: "strip s \<noteq> [] \<Longrightarrow> \<not> is_space (last (strip s))"
proof -
  assume ne: "strip s \<noteq> []"
  then have r: "rstrip s \<noteq> []" by (auto simp: strip_def lstrip_def)
  from ne have "last (strip s) = last (rstrip s)"
    unfolding strip_def by (rule lstrip_last)
  with rstrip_last[OF r] show ?thesis by simp
qed

lemma strip_unchanged:
  "s \<noteq> [] \<Longrightarrow> \<not> is_space (hd s) \<Longrightarrow> \<not> is_space (last s) \<Longrightarrow> strip s = s"
  by (simp add: strip_def rstrip_unchanged lstrip_unchanged)

lemma strip_idem [simp]: "strip (strip s) = strip s"
proof (cases "strip s = []")
  case True
  then show ?thesis by simp
next
  case False
  then show ?thesis by (simp add: strip_unchanged strip_hd strip_last)
qed

lemma strip_no_space: "s \<noteq> [] \<Longrightarrow> \<forall>c \<in> set s. \<not> is_space c \<Longrightarrow> strip s = s"
  by (rule strip_unchanged) simp_all

lemma set_lstrip: "\<not> is_space c \<Longrightarrow> c \<in> set (lstrip s) \<longleftrightarrow> c \<in> set s"
proof -
  assume c: "\<not> is_space c"
  have "set s = set (takeWhile is_space s) \<union> set (lstrip s)"
    by (metis lstrip_def set_append takeWhile_dropWhile_id)
  moreover from c have "c \<notin> set (takeWhile is_space s)"
    by (auto dest: set_takeWhileD)
  ultimately show ?thesis by auto
qed

lemma set_rstrip: "\<not> is_space c \<Longrightarrow> c \<in> set (rstrip s) \<longleftrightarrow> c \<in> set s"
proof -
  assume c: "\<not> is_space c"
  have "set (rev s) = set (takeWhile is_space (rev s)) \<union> set (dropWhile is_space (rev s))"
    by (metis set_append takeWhile_dropWhile_id)
  moreover from c have "c \<notin> set (takeWhile is_space (rev s))"
    by (auto dest: set_takeWhileD)
  ultimately show ?thesis by (auto simp: rstrip_def)
qed

lemma set_strip: "\<not> is_space c \<Longrightarrow> c \<in> set (strip s) \<longleftrightarrow> c \<in> set s"
  by (simp add: strip_def set_lstrip set_rstrip)

lemma rindex_None_iff: "rindex c s = None \<longleftrightarrow> c \<notin> set s"
  by (simp add: rindex_def)

lemma takeWhile_neq_append: "c \<notin> set a \<Longrightarrow> takeWhile (\<lambda>x. x \<noteq> c) (a @ c # b) = a"
  by (induction a) auto

lemma dropWhile_neq_append: "c \<notin> set a \<Longrightarrow> dropWhile (\<lambda>x. x \<noteq> c) (a @ c # b) = c # b"
  by (induction a) auto

lemma rindex_append: "c \<notin> set t \<Longrightarrow> rindex c (b @ c # t) = Some (length b)"
  using takeWhile_neq_append[of c "rev t" "rev b"] by (simp add: rindex_def)

lemma split1_append: "c \<notin> set a \<Longrightarrow> split1 c (a @ c # b) = (a, b)"
  by (simp add: split1_def takeWhile_neq_append dropWhile_neq_append)

lemma last_split_unique:
  assumes "b @ c # t = b' @ (c :: char) # t'" and "c \<notin> set t" and "c \<notin> set t'"
  shows "b = b' \<and> t = t'"
proof -
  from assms(2) have "rindex c (b @ c # t) = Some (length b)" by (rule rindex_append)
  moreover from assms(3) have "rindex c (b' @ c # t') = Some (length b')" by (rule rindex_append)
  ultimately have "length b = length b'" using assms(1) by simp
  with assms(1) show ?thesis by simp
qed

lemma first_split_unique:
  assumes "a @ c # b = a' @ (c :: char) # b'" and "c \<notin> set a" and "c \<notin> set a'"
  shows "a = a' \<and> b = b'"
proof -
  have "split1 c (a @ c # b) = split1 c (a' @ c # b')"
    using assms(1) by (rule arg_cong)
  then show ?thesis
    unfolding split1_append[OF assms(2)] split1_append[OF assms(3)] by simp
qed

subsection \<open>The parsers by the parts of the reference\<close>

text \<open>
  The part of the three parsers that reads the text after the last space, by the book
  string and the stripped tail. \<open>parse_verses\<close> reads the verse part after the colon, as
  \<^verbatim>\<open>sbc.search\<close> and \<^verbatim>\<open>sbc.parallel\<close> do; \<open>read_chapter\<close> is \<^verbatim>\<open>int(chap_str)\<close> in
  \<^verbatim>\<open>sbc.search\<close> and \<^verbatim>\<open>int(chap_str.strip())\<close> in \<^verbatim>\<open>sbc.parallel\<close>.
\<close>

definition parse_verses :: "string \<Rightarrow> (int \<times> int) option" where
  "parse_verses verse_part0 =
     (let verse_part = strip verse_part0 in
      if CHR ''-'' \<in> set verse_part then
        (case split1 CHR ''-'' verse_part of
           (start_str, end_str) \<Rightarrow>
             (case py_int (strip start_str) of
                None \<Rightarrow> None
              | Some v_start \<Rightarrow>
                  (case py_int (strip end_str) of
                     None \<Rightarrow> None
                   | Some v_end \<Rightarrow> Some (v_start, v_end))))
      else (case py_int verse_part of None \<Rightarrow> None | Some v \<Rightarrow> Some (v, v)))"

definition parse_tail ::
  "(string \<Rightarrow> int option) \<Rightarrow> string \<Rightarrow> string \<Rightarrow> (string \<times> int \<times> int \<times> int) option" where
  "parse_tail read_chapter book_str cv_str =
     (if CHR '':'' \<notin> set cv_str then None
      else
        case split1 CHR '':'' cv_str of
          (chap_str, verse_part0) \<Rightarrow>
            (case read_chapter chap_str of
               None \<Rightarrow> None
             | Some chapter \<Rightarrow>
                 (case parse_verses verse_part0 of
                    None \<Rightarrow> None
                  | Some (v_start, v_end) \<Rightarrow> Some (book_str, chapter, v_start, v_end))))"

definition parse_tail_single :: "string \<Rightarrow> string \<Rightarrow> (string \<times> int \<times> int) option" where
  "parse_tail_single book_str cv_str =
     (if CHR '':'' \<notin> set cv_str then None
      else
        case split1 CHR '':'' cv_str of
          (chap_str, verse_str) \<Rightarrow>
            (case py_int (strip chap_str) of
               None \<Rightarrow> None
             | Some chapter \<Rightarrow>
                 (case py_int (strip verse_str) of
                    None \<Rightarrow> None
                  | Some verse \<Rightarrow> Some (book_str, chapter, verse))))"

lemma search_parse_reference_alt:
  "search_parse_reference ref =
     (let s = strip ref in
      if s = [] then None
      else case rindex CHR '' '' s of
             None \<Rightarrow> None
           | Some i \<Rightarrow> parse_tail py_int (strip (take i s)) (strip (drop (i + 1) s)))"
  by (simp add: search_parse_reference_def parse_tail_def parse_verses_def Let_def
           split: option.splits prod.splits)

lemma parse_reference_range_alt:
  "parse_reference_range ref =
     (let s = strip ref in
      if s = [] then None
      else case rindex CHR '' '' s of
             None \<Rightarrow> None
           | Some i \<Rightarrow>
               parse_tail (\<lambda>c. py_int (strip c)) (strip (take i s)) (strip (drop (i + 1) s)))"
  by (simp add: parse_reference_range_def parse_tail_def parse_verses_def Let_def
           split: option.splits prod.splits)

lemma context_parse_reference_alt:
  "context_parse_reference ref =
     (let s = strip ref in
      if s = [] then None
      else case rindex CHR '' '' s of
             None \<Rightarrow> None
           | Some i \<Rightarrow> parse_tail_single (strip (take i s)) (strip (drop (i + 1) s)))"
  by (simp add: context_parse_reference_def parse_tail_single_def Let_def
           split: option.splits prod.splits)

lemma search_parse_reference_split:
  assumes "strip ref = book @ CHR '' '' # tail" and "CHR '' '' \<notin> set tail"
  shows "search_parse_reference ref = parse_tail py_int (strip book) (strip tail)"
  using assms by (simp add: search_parse_reference_alt rindex_append)

lemma parse_reference_range_split:
  assumes "strip ref = book @ CHR '' '' # tail" and "CHR '' '' \<notin> set tail"
  shows "parse_reference_range ref
           = parse_tail (\<lambda>c. py_int (strip c)) (strip book) (strip tail)"
  using assms by (simp add: parse_reference_range_alt rindex_append)

lemma context_parse_reference_split:
  assumes "strip ref = book @ CHR '' '' # tail" and "CHR '' '' \<notin> set tail"
  shows "context_parse_reference ref = parse_tail_single (strip book) (strip tail)"
  using assms by (simp add: context_parse_reference_alt rindex_append)

lemma search_parse_reference_no_space:
  "CHR '' '' \<notin> set (strip ref) \<Longrightarrow> search_parse_reference ref = None"
  by (simp add: search_parse_reference_alt rindex_def Let_def)

lemma parse_reference_range_no_space:
  "CHR '' '' \<notin> set (strip ref) \<Longrightarrow> parse_reference_range ref = None"
  by (simp add: parse_reference_range_alt rindex_def Let_def)

lemma context_parse_reference_no_space:
  "CHR '' '' \<notin> set (strip ref) \<Longrightarrow> context_parse_reference ref = None"
  by (simp add: context_parse_reference_alt rindex_def Let_def)

lemma not_space_colon: "\<not> is_space CHR '':''" by (simp add: is_space_def)
lemma not_space_hyphen: "\<not> is_space CHR ''-''" by (simp add: is_space_def)

lemma parse_verses_hyphen:
  assumes "strip verses = a @ CHR ''-'' # b" and "CHR ''-'' \<notin> set a"
  shows "parse_verses verses
           = (case py_int (strip a) of
                None \<Rightarrow> None
              | Some x \<Rightarrow> (case py_int (strip b) of None \<Rightarrow> None | Some y \<Rightarrow> Some (x, y)))"
  unfolding parse_verses_def Let_def assms(1)
  by (simp add: split1_append[OF assms(2)])

lemma parse_verses_plain:
  assumes "CHR ''-'' \<notin> set verses"
  shows "parse_verses verses
           = (case py_int (strip verses) of None \<Rightarrow> None | Some v \<Rightarrow> Some (v, v))"
proof -
  from assms have "CHR ''-'' \<notin> set (strip verses)" by (simp add: set_strip not_space_hyphen)
  then show ?thesis by (simp add: parse_verses_def Let_def)
qed

lemma parse_verses_None_iff:
  "parse_verses verses = None \<longleftrightarrow>
     (CHR ''-'' \<notin> set verses \<and> py_int (strip verses) = None)
     \<or> (\<exists>first last. strip verses = first @ CHR ''-'' # last \<and> CHR ''-'' \<notin> set first
           \<and> (py_int (strip first) = None \<or> py_int (strip last) = None))"
proof (cases "CHR ''-'' \<in> set verses")
  case False
  then have n: "CHR ''-'' \<notin> set (strip verses)" by (simp add: set_strip not_space_hyphen)
  have "\<not> (\<exists>first last. strip verses = first @ CHR ''-'' # last)"
  proof
    assume "\<exists>first last. strip verses = first @ CHR ''-'' # last"
    then obtain f l where "strip verses = f @ CHR ''-'' # l" by blast
    then have "CHR ''-'' \<in> set (strip verses)" by simp
    with n show False by simp
  qed
  moreover have "parse_verses verses = None \<longleftrightarrow> py_int (strip verses) = None"
    by (simp add: parse_verses_plain[OF False] split: option.splits)
  ultimately show ?thesis using False by simp
next
  case True
  then have "CHR ''-'' \<in> set (strip verses)" by (simp add: set_strip not_space_hyphen)
  from split_list_first[OF this]
  obtain a b where ab: "strip verses = a @ CHR ''-'' # b" "CHR ''-'' \<notin> set a"
    by blast
  have u: "first = a \<and> last = b"
    if "strip verses = first @ CHR ''-'' # last" "CHR ''-'' \<notin> set first" for first last
  proof -
    from that(1) ab(1) have "first @ CHR ''-'' # last = a @ CHR ''-'' # b" by simp
    from first_split_unique[OF this that(2) ab(2)] show ?thesis .
  qed
  have "parse_verses verses = None \<longleftrightarrow> py_int (strip a) = None \<or> py_int (strip b) = None"
    by (simp add: parse_verses_hyphen[OF ab] split: option.splits)
  also have "\<dots> \<longleftrightarrow> (\<exists>first last. strip verses = first @ CHR ''-'' # last
                      \<and> CHR ''-'' \<notin> set first
                      \<and> (py_int (strip first) = None \<or> py_int (strip last) = None))"
  proof
    assume "py_int (strip a) = None \<or> py_int (strip b) = None"
    with ab show "\<exists>first last. strip verses = first @ CHR ''-'' # last
                      \<and> CHR ''-'' \<notin> set first
                      \<and> (py_int (strip first) = None \<or> py_int (strip last) = None)"
      by (intro exI[of _ a] exI[of _ b]) simp
  next
    assume "\<exists>first last. strip verses = first @ CHR ''-'' # last
                      \<and> CHR ''-'' \<notin> set first
                      \<and> (py_int (strip first) = None \<or> py_int (strip last) = None)"
    then obtain f l where fl: "strip verses = f @ CHR ''-'' # l" "CHR ''-'' \<notin> set f"
      "py_int (strip f) = None \<or> py_int (strip l) = None"
      by (elim exE conjE)
    from u[OF fl(1,2)] fl(3) show "py_int (strip a) = None \<or> py_int (strip b) = None"
      by simp
  qed
  finally show ?thesis using True by simp
qed

lemma parse_tail_colon:
  assumes "CHR '':'' \<notin> set a"
  shows "parse_tail rc bk (a @ CHR '':'' # b)
           = (case rc a of
                None \<Rightarrow> None
              | Some c \<Rightarrow>
                  (case parse_verses b of None \<Rightarrow> None | Some (x, y) \<Rightarrow> Some (bk, c, x, y)))"
  unfolding parse_tail_def by (simp add: split1_append[OF assms])

lemma parse_tail_single_colon:
  assumes "CHR '':'' \<notin> set a"
  shows "parse_tail_single bk (a @ CHR '':'' # b)
           = (case py_int (strip a) of
                None \<Rightarrow> None
              | Some c \<Rightarrow>
                  (case py_int (strip b) of None \<Rightarrow> None | Some v \<Rightarrow> Some (bk, c, v)))"
  unfolding parse_tail_single_def by (simp add: split1_append[OF assms])

lemma parse_tail_None_iff:
  "parse_tail rc bk cv = None \<longleftrightarrow>
     CHR '':'' \<notin> set cv
     \<or> (\<exists>chap verses. cv = chap @ CHR '':'' # verses \<and> CHR '':'' \<notin> set chap
           \<and> (rc chap = None \<or> parse_verses verses = None))"
proof (cases "CHR '':'' \<in> set cv")
  case False
  then show ?thesis by (simp add: parse_tail_def)
next
  case True
  from split_list_first[OF this]
  obtain a b where ab: "cv = a @ CHR '':'' # b" "CHR '':'' \<notin> set a"
    by blast
  have u: "chap = a \<and> verses = b"
    if "cv = chap @ CHR '':'' # verses" "CHR '':'' \<notin> set chap" for chap verses
  proof -
    from that(1) ab(1) have "chap @ CHR '':'' # verses = a @ CHR '':'' # b" by simp
    from first_split_unique[OF this that(2) ab(2)] show ?thesis .
  qed
  have "parse_tail rc bk cv = None \<longleftrightarrow> rc a = None \<or> parse_verses b = None"
    unfolding ab(1) by (simp add: parse_tail_colon[OF ab(2)] split: option.splits)
  also have "\<dots> \<longleftrightarrow> (\<exists>chap verses. cv = chap @ CHR '':'' # verses \<and> CHR '':'' \<notin> set chap
           \<and> (rc chap = None \<or> parse_verses verses = None))"
  proof
    assume "rc a = None \<or> parse_verses b = None"
    with ab show "\<exists>chap verses. cv = chap @ CHR '':'' # verses \<and> CHR '':'' \<notin> set chap
           \<and> (rc chap = None \<or> parse_verses verses = None)"
      by (intro exI[of _ a] exI[of _ b]) simp
  next
    assume "\<exists>chap verses. cv = chap @ CHR '':'' # verses \<and> CHR '':'' \<notin> set chap
           \<and> (rc chap = None \<or> parse_verses verses = None)"
    then obtain f l where fl: "cv = f @ CHR '':'' # l" "CHR '':'' \<notin> set f"
      "rc f = None \<or> parse_verses l = None"
      by (elim exE conjE)
    from u[OF fl(1,2)] fl(3) show "rc a = None \<or> parse_verses b = None" by simp
  qed
  finally show ?thesis using True by simp
qed

lemma parse_tail_single_None_iff:
  "parse_tail_single bk cv = None \<longleftrightarrow>
     CHR '':'' \<notin> set cv
     \<or> (\<exists>chap verse. cv = chap @ CHR '':'' # verse \<and> CHR '':'' \<notin> set chap
           \<and> (py_int (strip chap) = None \<or> py_int (strip verse) = None))"
proof (cases "CHR '':'' \<in> set cv")
  case False
  then show ?thesis by (simp add: parse_tail_single_def)
next
  case True
  from split_list_first[OF this]
  obtain a b where ab: "cv = a @ CHR '':'' # b" "CHR '':'' \<notin> set a"
    by blast
  have u: "chap = a \<and> verse = b"
    if "cv = chap @ CHR '':'' # verse" "CHR '':'' \<notin> set chap" for chap verse
  proof -
    from that(1) ab(1) have "chap @ CHR '':'' # verse = a @ CHR '':'' # b" by simp
    from first_split_unique[OF this that(2) ab(2)] show ?thesis .
  qed
  have "parse_tail_single bk cv = None
          \<longleftrightarrow> py_int (strip a) = None \<or> py_int (strip b) = None"
    unfolding ab(1) by (simp add: parse_tail_single_colon[OF ab(2)] split: option.splits)
  also have "\<dots> \<longleftrightarrow> (\<exists>chap verse. cv = chap @ CHR '':'' # verse \<and> CHR '':'' \<notin> set chap
           \<and> (py_int (strip chap) = None \<or> py_int (strip verse) = None))"
  proof
    assume "py_int (strip a) = None \<or> py_int (strip b) = None"
    with ab show "\<exists>chap verse. cv = chap @ CHR '':'' # verse \<and> CHR '':'' \<notin> set chap
           \<and> (py_int (strip chap) = None \<or> py_int (strip verse) = None)"
      by (intro exI[of _ a] exI[of _ b]) simp
  next
    assume "\<exists>chap verse. cv = chap @ CHR '':'' # verse \<and> CHR '':'' \<notin> set chap
           \<and> (py_int (strip chap) = None \<or> py_int (strip verse) = None)"
    then obtain f l where fl: "cv = f @ CHR '':'' # l" "CHR '':'' \<notin> set f"
      "py_int (strip f) = None \<or> py_int (strip l) = None"
      by (elim exE conjE)
    from u[OF fl(1,2)] fl(3) show "py_int (strip a) = None \<or> py_int (strip b) = None"
      by simp
  qed
  finally show ?thesis using True by simp
qed

lemma parse_tail_malformed_iff:
  "parse_tail rc bk (strip tail) = None \<longleftrightarrow>
     CHR '':'' \<notin> set tail
     \<or> (\<exists>chap verses. strip tail = chap @ CHR '':'' # verses \<and> CHR '':'' \<notin> set chap
           \<and> (rc chap = None
              \<or> (CHR ''-'' \<notin> set verses \<and> py_int (strip verses) = None)
              \<or> (\<exists>first last. strip verses = first @ CHR ''-'' # last
                    \<and> CHR ''-'' \<notin> set first
                    \<and> (py_int (strip first) = None \<or> py_int (strip last) = None))))"
  by (simp only: parse_tail_None_iff parse_verses_None_iff set_strip[OF not_space_colon])

lemma parse_tail_single_malformed_iff:
  "parse_tail_single bk (strip tail) = None \<longleftrightarrow>
     CHR '':'' \<notin> set tail
     \<or> (\<exists>chap verse. strip tail = chap @ CHR '':'' # verse \<and> CHR '':'' \<notin> set chap
           \<and> (py_int (strip chap) = None \<or> py_int (strip verse) = None))"
  by (simp only: parse_tail_single_None_iff set_strip[OF not_space_colon])

lemma split_at_last_space:
  assumes "CHR '' '' \<in> set s"
  obtains book tail where "s = book @ CHR '' '' # tail" and "CHR '' '' \<notin> set tail"
  using split_list_last[OF assms] by blast

lemma malformed_iff_general:
  assumes parse: "\<And>book tail. strip ref = book @ CHR '' '' # tail \<Longrightarrow> CHR '' '' \<notin> set tail
                    \<Longrightarrow> (p = None) = Bad tail"
    and empty: "strip ref = [] \<Longrightarrow> p = None"
    and nospace: "CHR '' '' \<notin> set (strip ref) \<Longrightarrow> p = None"
  shows "p = None \<longleftrightarrow>
           strip ref = [] \<or> CHR '' '' \<notin> set (strip ref)
           \<or> (\<exists>book tail. strip ref = book @ CHR '' '' # tail \<and> CHR '' '' \<notin> set tail
                 \<and> Bad tail)"
proof (cases "strip ref = [] \<or> CHR '' '' \<notin> set (strip ref)")
  case True
  then have "p = None" using empty nospace by blast
  with True show ?thesis by auto
next
  case False
  then have sp: "CHR '' '' \<in> set (strip ref)" and ne: "strip ref \<noteq> []" by simp_all
  from sp obtain book tail where
    bt: "strip ref = book @ CHR '' '' # tail" "CHR '' '' \<notin> set tail"
    by (rule split_at_last_space)
  have u: "tail' = tail"
    if "strip ref = book' @ CHR '' '' # tail'" "CHR '' '' \<notin> set tail'" for book' tail'
  proof -
    from that(1) bt(1) have "book' @ CHR '' '' # tail' = book @ CHR '' '' # tail" by simp
    from last_split_unique[OF this that(2) bt(2)] show ?thesis by simp
  qed
  have "(\<exists>book tail. strip ref = book @ CHR '' '' # tail \<and> CHR '' '' \<notin> set tail \<and> Bad tail)
          \<longleftrightarrow> Bad tail"
  proof
    assume "\<exists>book tail. strip ref = book @ CHR '' '' # tail \<and> CHR '' '' \<notin> set tail \<and> Bad tail"
    then obtain b' t' where
      x: "strip ref = b' @ CHR '' '' # t'" "CHR '' '' \<notin> set t'" "Bad t'"
      by (elim exE conjE)
    from u[OF x(1,2)] x(3) show "Bad tail" by simp
  next
    assume "Bad tail"
    with bt show
      "\<exists>book tail. strip ref = book @ CHR '' '' # tail \<and> CHR '' '' \<notin> set tail \<and> Bad tail"
      by (intro exI[of _ book] exI[of _ tail]) simp
  qed
  with parse[OF bt] sp ne show ?thesis by simp
qed

lemma search_parse_reference_None_iff:
  "search_parse_reference ref = None \<longleftrightarrow>
     strip ref = [] \<or> CHR '' '' \<notin> set (strip ref)
     \<or> (\<exists>book tail. strip ref = book @ CHR '' '' # tail \<and> CHR '' '' \<notin> set tail
          \<and> (CHR '':'' \<notin> set tail
             \<or> (\<exists>chap verses. strip tail = chap @ CHR '':'' # verses \<and> CHR '':'' \<notin> set chap
                   \<and> (py_int chap = None
                      \<or> (CHR ''-'' \<notin> set verses \<and> py_int (strip verses) = None)
                      \<or> (\<exists>first last. strip verses = first @ CHR ''-'' # last
                            \<and> CHR ''-'' \<notin> set first
                            \<and> (py_int (strip first) = None
                               \<or> py_int (strip last) = None))))))"
proof (rule malformed_iff_general)
  fix book tail
  assume "strip ref = book @ CHR '' '' # tail" "CHR '' '' \<notin> set tail"
  then have "search_parse_reference ref = parse_tail py_int (strip book) (strip tail)"
    by (rule search_parse_reference_split)
  then show "(search_parse_reference ref = None) =
     (CHR '':'' \<notin> set tail
             \<or> (\<exists>chap verses. strip tail = chap @ CHR '':'' # verses \<and> CHR '':'' \<notin> set chap
                   \<and> (py_int chap = None
                      \<or> (CHR ''-'' \<notin> set verses \<and> py_int (strip verses) = None)
                      \<or> (\<exists>first last. strip verses = first @ CHR ''-'' # last
                            \<and> CHR ''-'' \<notin> set first
                            \<and> (py_int (strip first) = None
                               \<or> py_int (strip last) = None)))))"
    by (simp only: parse_tail_malformed_iff)
next
  assume "strip ref = []"
  then show "search_parse_reference ref = None"
    by (simp add: search_parse_reference_alt)
next
  assume "CHR '' '' \<notin> set (strip ref)"
  then show "search_parse_reference ref = None" by (rule search_parse_reference_no_space)
qed

lemma parse_reference_range_None_iff:
  "parse_reference_range ref = None \<longleftrightarrow>
     strip ref = [] \<or> CHR '' '' \<notin> set (strip ref)
     \<or> (\<exists>book tail. strip ref = book @ CHR '' '' # tail \<and> CHR '' '' \<notin> set tail
          \<and> (CHR '':'' \<notin> set tail
             \<or> (\<exists>chap verses. strip tail = chap @ CHR '':'' # verses \<and> CHR '':'' \<notin> set chap
                   \<and> (py_int (strip chap) = None
                      \<or> (CHR ''-'' \<notin> set verses \<and> py_int (strip verses) = None)
                      \<or> (\<exists>first last. strip verses = first @ CHR ''-'' # last
                            \<and> CHR ''-'' \<notin> set first
                            \<and> (py_int (strip first) = None
                               \<or> py_int (strip last) = None))))))"
proof (rule malformed_iff_general)
  fix book tail
  assume "strip ref = book @ CHR '' '' # tail" "CHR '' '' \<notin> set tail"
  then have "parse_reference_range ref
               = parse_tail (\<lambda>c. py_int (strip c)) (strip book) (strip tail)"
    by (rule parse_reference_range_split)
  then show "(parse_reference_range ref = None) =
     (CHR '':'' \<notin> set tail
             \<or> (\<exists>chap verses. strip tail = chap @ CHR '':'' # verses \<and> CHR '':'' \<notin> set chap
                   \<and> (py_int (strip chap) = None
                      \<or> (CHR ''-'' \<notin> set verses \<and> py_int (strip verses) = None)
                      \<or> (\<exists>first last. strip verses = first @ CHR ''-'' # last
                            \<and> CHR ''-'' \<notin> set first
                            \<and> (py_int (strip first) = None
                               \<or> py_int (strip last) = None)))))"
    by (simp only: parse_tail_malformed_iff)
next
  assume "strip ref = []"
  then show "parse_reference_range ref = None"
    by (simp add: parse_reference_range_alt)
next
  assume "CHR '' '' \<notin> set (strip ref)"
  then show "parse_reference_range ref = None" by (rule parse_reference_range_no_space)
qed

lemma context_parse_reference_None_iff:
  "context_parse_reference ref = None \<longleftrightarrow>
     strip ref = [] \<or> CHR '' '' \<notin> set (strip ref)
     \<or> (\<exists>book tail. strip ref = book @ CHR '' '' # tail \<and> CHR '' '' \<notin> set tail
          \<and> (CHR '':'' \<notin> set tail
             \<or> (\<exists>chap verse. strip tail = chap @ CHR '':'' # verse \<and> CHR '':'' \<notin> set chap
                   \<and> (py_int (strip chap) = None \<or> py_int (strip verse) = None))))"
proof (rule malformed_iff_general)
  fix book tail
  assume "strip ref = book @ CHR '' '' # tail" "CHR '' '' \<notin> set tail"
  then have "context_parse_reference ref = parse_tail_single (strip book) (strip tail)"
    by (rule context_parse_reference_split)
  then show "(context_parse_reference ref = None) =
     (CHR '':'' \<notin> set tail
             \<or> (\<exists>chap verse. strip tail = chap @ CHR '':'' # verse \<and> CHR '':'' \<notin> set chap
                   \<and> (py_int (strip chap) = None \<or> py_int (strip verse) = None)))"
    by (simp only: parse_tail_single_malformed_iff)
next
  assume "strip ref = []"
  then show "context_parse_reference ref = None"
    by (simp add: context_parse_reference_alt)
next
  assume "CHR '' '' \<notin> set (strip ref)"
  then show "context_parse_reference ref = None" by (rule context_parse_reference_no_space)
qed

subsection \<open>Malformed references\<close>

text \<open>
  The two range parsers differ in one place: \<^verbatim>\<open>sbc.search\<close> reads the chapter with
  \<^verbatim>\<open>int(chap_str)\<close>, \<^verbatim>\<open>sbc.parallel\<close> with \<^verbatim>\<open>int(chap_str.strip())\<close>, and \<^verbatim>\<open>strip\<close> drops the
  separators \<^verbatim>\<open>\x1c\<close> to \<^verbatim>\<open>\x1f\<close>, which \<^verbatim>\<open>int\<close> does not accept.
\<close>

lemma range_parsers_differ:
  "search_parse_reference (''John 3'' @ [CHR 0x1C] @ '':16'') = None
   \<and> parse_reference_range (''John 3'' @ [CHR 0x1C] @ '':16'') = Some (''John'', 3, 16, 16)"
  by code_simp

text \<open>
  With the equivalences \<open>search_parse_reference_None_iff\<close>, \<open>parse_reference_range_None_iff\<close>
  and \<open>context_parse_reference_None_iff\<close>, each parser returns \<^verbatim>\<open>None\<close>, the sign of a
  malformed reference, exactly when the stripped input is empty, or has no space, or the
  text after its last space has no colon, or \<^verbatim>\<open>int\<close> rejects the chapter before the first
  colon, or \<^verbatim>\<open>int\<close> rejects the verse part after it; the two range parsers read a verse
  part with a hyphen as the two integers around its first hyphen. The empty string,
  \<^verbatim>\<open>"Genesis1:1"\<close> and \<^verbatim>\<open>"Genesis 1 1"\<close> are malformed for the three parsers;
  \<^verbatim>\<open>"Genesis 999:999"\<close> parses, and \<^verbatim>\<open>get_passage\<close> returns the empty list for it on the
  sample data.
\<close>

lemma listed_causes_are_malformed:
  "search_parse_reference [] = None
   \<and> search_parse_reference ''Genesis1:1'' = None
   \<and> search_parse_reference ''Genesis 1 1'' = None
   \<and> search_parse_reference ''John 3:x'' = None
   \<and> parse_reference_range [] = None
   \<and> parse_reference_range ''Genesis1:1'' = None
   \<and> parse_reference_range ''Genesis 1 1'' = None
   \<and> parse_reference_range ''John 3:x'' = None
   \<and> context_parse_reference [] = None
   \<and> context_parse_reference ''Genesis1:1'' = None
   \<and> context_parse_reference ''Genesis 1 1'' = None
   \<and> context_parse_reference ''John 3:x'' = None
   \<and> search_parse_reference ''Genesis 999:999'' = Some (''Genesis'', 999, 999, 999)
   \<and> parse_reference_range ''Genesis 999:999'' = Some (''Genesis'', 999, 999, 999)
   \<and> context_parse_reference ''Genesis 999:999'' = Some (''Genesis'', 999, 999)
   \<and> get_passage sample_canon_file sample_db ''Genesis 999:999'' ''KJV'' = Inr []"
proof -
  have e1: "search_parse_reference [] = None" by code_simp
  have e2: "search_parse_reference ''Genesis1:1'' = None" by code_simp
  have e3: "search_parse_reference ''Genesis 1 1'' = None" by code_simp
  have e3x: "search_parse_reference ''John 3:x'' = None" by code_simp
  have r1: "parse_reference_range [] = None" by code_simp
  have r2: "parse_reference_range ''Genesis1:1'' = None" by code_simp
  have r3: "parse_reference_range ''Genesis 1 1'' = None" by code_simp
  have r3x: "parse_reference_range ''John 3:x'' = None" by code_simp
  have e4: "context_parse_reference [] = None" by code_simp
  have e5: "context_parse_reference ''Genesis1:1'' = None" by code_simp
  have e6: "context_parse_reference ''Genesis 1 1'' = None" by code_simp
  have e6x: "context_parse_reference ''John 3:x'' = None" by code_simp
  have e7: "search_parse_reference ''Genesis 999:999'' = Some (''Genesis'', 999, 999, 999)"
    by code_simp
  have e8: "parse_reference_range ''Genesis 999:999'' = Some (''Genesis'', 999, 999, 999)"
    by code_simp
  have e9: "context_parse_reference ''Genesis 999:999'' = Some (''Genesis'', 999, 999)"
    by code_simp
  have e10: "get_passage sample_canon_file sample_db ''Genesis 999:999'' ''KJV'' = Inr []"
    unfolding sample_canon_file_def sample_db_def by code_simp
  show ?thesis
    by (intro conjI e1 e2 e3 e3x r1 r2 r3 r3x e4 e5 e6 e6x e7 e8 e9 e10)
qed

text \<open>
  Claim C5 says that a reference is malformed only for the listed causes, none of which
  holds of \<^verbatim>\<open>"John 3:16-18"\<close>: it has a space and a colon, and its chapter and the two ends
  of its verse range are integers. The two range parsers accept it. The parser of
  \<^verbatim>\<open>sbc.context\<close> reads the whole verse part \<^verbatim>\<open>"16-18"\<close> with one \<^verbatim>\<open>int\<close> and returns
  \<^verbatim>\<open>None\<close>: \<^verbatim>\<open>get_verse_window\<close>, which the passage report calls with the reference of
  the passage to show the verses around its first verse, returns the empty list for it,
  although \<^verbatim>\<open>get_passage\<close> finds the passage and the window around \<^verbatim>\<open>"John 3:16"\<close> is not
  empty.
\<close>

theorem context_parser_rejects_verse_range:
  "search_parse_reference ''John 3:16-18'' = Some (''John'', 3, 16, 18)
   \<and> parse_reference_range ''John 3:16-18'' = Some (''John'', 3, 16, 18)
   \<and> py_int ''3'' = Some 3 \<and> py_int ''16'' = Some 16 \<and> py_int ''18'' = Some 18
   \<and> context_parse_reference ''John 3:16-18'' = None
   \<and> context_parse_reference ''John 3:16-16'' = None
   \<and> context_parse_reference ''John 3:16'' = Some (''John'', 3, 16)
   \<and> get_passage sample_canon_file sample_db ''John 3:16-18'' ''KJV''
       = Inr [(''KJV'', 43, ''JHN'', 3, 16, ''For God so loved the world'')]
   \<and> get_verse_window sample_canon_file sample_db ''John 3:16-18'' ''KJV'' 2 2 = Inr []
   \<and> get_verse_window sample_canon_file sample_db ''John 3:16'' ''KJV'' 2 2
       = Inr [(''KJV'', 43, ''JHN'', 3, 16, ''For God so loved the world'')]"
proof -
  have p1: "search_parse_reference ''John 3:16-18'' = Some (''John'', 3, 16, 18)"
    by code_simp
  have p2: "parse_reference_range ''John 3:16-18'' = Some (''John'', 3, 16, 18)"
    by code_simp
  have i1: "py_int ''3'' = Some 3" by code_simp
  have i2: "py_int ''16'' = Some 16" by code_simp
  have i3: "py_int ''18'' = Some 18" by code_simp
  have c1: "context_parse_reference ''John 3:16-18'' = None" by code_simp
  have c2: "context_parse_reference ''John 3:16-16'' = None" by code_simp
  have c3: "context_parse_reference ''John 3:16'' = Some (''John'', 3, 16)" by code_simp
  have g1: "get_passage sample_canon_file sample_db ''John 3:16-18'' ''KJV''
       = Inr [(''KJV'', 43, ''JHN'', 3, 16, ''For God so loved the world'')]"
    unfolding sample_canon_file_def sample_db_def by code_simp
  have g2: "get_verse_window sample_canon_file sample_db ''John 3:16-18'' ''KJV'' 2 2 = Inr []"
    unfolding sample_canon_file_def sample_db_def by code_simp
  have g3: "get_verse_window sample_canon_file sample_db ''John 3:16'' ''KJV'' 2 2
       = Inr [(''KJV'', 43, ''JHN'', 3, 16, ''For God so loved the world'')]"
    unfolding sample_canon_file_def sample_db_def by code_simp
  show ?thesis by (intro conjI p1 p2 i1 i2 i3 c1 c2 c3 g1 g2 g3)
qed

subsection \<open>Integers written in decimal are read back\<close>

lemma is_digit_char_of: "n < 10 \<Longrightarrow> is_digit (char_of (48 + (n :: nat)))"
  by (simp add: is_digit_def Let_def)

lemma digit_val_char_of: "n < 10 \<Longrightarrow> digit_val (char_of (48 + (n :: nat))) = int n"
  by (simp add: digit_val_def)

lemma is_digit_not_special:
  assumes "is_digit c"
  shows "\<not> is_space c" and "c \<noteq> CHR '' ''" and "c \<noteq> CHR '':''" and "c \<noteq> CHR ''-''"
    and "c \<noteq> CHR ''+''" and "\<not> is_int_space c"
  using assms by (auto simp: is_digit_def is_space_def is_int_space_def Let_def)

lemma int_strip_unchanged:
  assumes "s \<noteq> []" and "\<not> is_int_space (hd s)" and "\<not> is_int_space (last s)"
  shows "int_strip s = s"
proof -
  from assms(1,2) have "dropWhile is_int_space s = s" by (cases s) simp_all
  moreover from assms(1,3) have "dropWhile is_int_space (rev s) = rev s"
    by (cases s rule: rev_cases) simp_all
  ultimately show ?thesis by (simp add: int_strip_def)
qed

lemma digits_of_digits: "list_all is_digit (digits_of n)"
proof (induction n rule: digits_of.induct)
  case (1 n)
  show ?case
  proof (cases "n < 10")
    case True
    then show ?thesis by (subst digits_of.simps) (simp add: is_digit_char_of)
  next
    case False
    with "1.IH" have "list_all is_digit (digits_of (n div 10))" by simp
    moreover have "is_digit (char_of (48 + n mod 10))" by (rule is_digit_char_of) simp
    ultimately show ?thesis using False by (subst digits_of.simps) simp
  qed
qed

lemma digits_of_nonempty: "digits_of n \<noteq> []"
  by (subst digits_of.simps) simp

text \<open>The value of a string of digits, read from the left onto \<open>acc\<close>.\<close>

definition digits_value :: "int \<Rightarrow> string \<Rightarrow> int" where
  "digits_value acc xs = foldl (\<lambda>a c. 10 * a + digit_val c) acc xs"

lemma digits_value_of: "digits_value 0 (digits_of n) = int n"
proof (induction n rule: digits_of.induct)
  case (1 n)
  show ?case
  proof (cases "n < 10")
    case True
    then show ?thesis
      by (subst digits_of.simps) (simp add: digits_value_def digit_val_char_of)
  next
    case False
    with "1.IH" have ih: "digits_value 0 (digits_of (n div 10)) = int (n div 10)" by simp
    have "digits_value 0 (digits_of n)
            = 10 * digits_value 0 (digits_of (n div 10)) + digit_val (char_of (48 + n mod 10))"
      using False by (subst digits_of.simps) (simp add: digits_value_def)
    also have "\<dots> = 10 * int (n div 10) + int (n mod 10)"
      by (simp add: ih digit_val_char_of)
    also have "\<dots> = int n" by (simp add: zdiv_int zmod_int)
    finally show ?thesis .
  qed
qed

lemma parse_digits_digits:
  "list_all is_digit xs \<Longrightarrow> xs \<noteq> [] \<Longrightarrow> parse_digits p acc xs = Some (digits_value acc xs)"
proof (induction xs arbitrary: p acc)
  case Nil
  then show ?case by simp
next
  case (Cons x xs)
  show ?case
  proof (cases "xs = []")
    case True
    with Cons.prems show ?thesis by (simp add: digits_value_def)
  next
    case False
    with Cons.prems Cons.IH[of True "10 * acc + digit_val x"] show ?thesis
      by (simp add: digits_value_def)
  qed
qed

lemma parse_digits_digits_of: "parse_digits p 0 (digits_of n) = Some (int n)"
  by (simp add: parse_digits_digits digits_of_digits digits_of_nonempty digits_value_of)

lemma digits_of_set: "c \<in> set (digits_of n) \<Longrightarrow> is_digit c"
  using digits_of_digits[of n] by (simp add: list_all_iff)

lemma py_str_nonempty: "py_str i \<noteq> []"
  by (simp add: py_str_def digits_of_nonempty)

lemma py_str_chars: "c \<in> set (py_str i) \<Longrightarrow> c = CHR ''-'' \<or> is_digit c"
  by (auto simp: py_str_def dest: digits_of_set split: if_splits)

lemma py_str_no_space: "c \<in> set (py_str i) \<Longrightarrow> \<not> is_space c"
  using py_str_chars[of c i] not_space_hyphen is_digit_not_special(1)[of c] by auto

lemma py_str_no_blank: "CHR '' '' \<notin> set (py_str i)"
  by (auto simp: py_str_def dest: digits_of_set is_digit_not_special(2) split: if_splits)

lemma py_str_no_colon: "CHR '':'' \<notin> set (py_str i)"
  by (auto simp: py_str_def dest: digits_of_set is_digit_not_special(3) split: if_splits)

lemma py_str_hyphen_iff: "CHR ''-'' \<in> set (py_str i) \<longleftrightarrow> i < 0"
  by (auto simp: py_str_def dest: digits_of_set is_digit_not_special(4))

lemma strip_py_str: "strip (py_str i) = py_str i"
  by (rule strip_no_space) (auto simp: py_str_nonempty dest: py_str_no_space)

lemma py_str_no_int_space: "c \<in> set (py_str i) \<Longrightarrow> \<not> is_int_space c"
  using py_str_chars[of c i] is_digit_not_special(6)[of c]
  by (auto simp: is_int_space_def)

lemma int_strip_py_str: "int_strip (py_str i) = py_str i"
proof (rule int_strip_unchanged)
  show "py_str i \<noteq> []" by (rule py_str_nonempty)
  have "hd (py_str i) \<in> set (py_str i)" by (simp add: py_str_nonempty)
  then show "\<not> is_int_space (hd (py_str i))" by (rule py_str_no_int_space)
  have "last (py_str i) \<in> set (py_str i)" by (simp add: py_str_nonempty)
  then show "\<not> is_int_space (last (py_str i))" by (rule py_str_no_int_space)
qed

lemma py_int_py_str: "py_int (py_str i) = Some i"
proof (cases "i < 0")
  case True
  then show ?thesis
    unfolding py_int_def int_strip_py_str
    by (simp add: py_str_def parse_digits_digits_of)
next
  case False
  obtain c cs where d: "digits_of (nat i) = c # cs"
    using digits_of_nonempty[of "nat i"] by (cases "digits_of (nat i)") auto
  then have "is_digit c" using digits_of_set[of c "nat i"] by simp
  then have "c \<noteq> CHR ''-''" "c \<noteq> CHR ''+''"
    by (simp_all add: is_digit_not_special)
  moreover have "parse_digits False 0 (c # cs) = Some (int (nat i))"
    unfolding d[symmetric] by (rule parse_digits_digits_of)
  ultimately show ?thesis
    unfolding py_int_def int_strip_py_str using False d
    by (simp add: py_str_def)
qed

subsection \<open>A book string followed by a tail without white space\<close>

lemma strip_eq_Nil_iff: "strip s = [] \<longleftrightarrow> (\<forall>c \<in> set s. is_space c)"
proof
  assume e: "strip s = []"
  show "\<forall>c \<in> set s. is_space c"
  proof (rule ccontr)
    assume "\<not> (\<forall>c \<in> set s. is_space c)"
    then have ne: "rstrip s \<noteq> []" by (simp add: rstrip_eq_Nil_iff)
    from e have "\<forall>c \<in> set (rstrip s). is_space c"
      by (simp add: strip_def lstrip_def dropWhile_eq_Nil_conv)
    with ne have "is_space (last (rstrip s))" by simp
    with rstrip_last[OF ne] show False by simp
  qed
next
  assume "\<forall>c \<in> set s. is_space c"
  then have "rstrip s = []" by (simp add: rstrip_eq_Nil_iff)
  then show "strip s = []" by (simp add: strip_def lstrip_def)
qed

lemma rstrip_append_spaces_left:
  assumes "x \<in> set s" and "\<not> is_space x"
  shows "rstrip (p @ s) = p @ rstrip s"
proof -
  from assms have "dropWhile is_space (rev s @ rev p) = dropWhile is_space (rev s) @ rev p"
    by (intro dropWhile_append1[of x]) simp_all
  then show ?thesis by (simp add: rstrip_def)
qed

lemma strip_append_spaces_left:
  assumes "\<forall>c \<in> set p. is_space c"
  shows "strip (p @ s) = strip s"
proof (cases "\<forall>c \<in> set s. is_space c")
  case True
  with assms have "\<forall>c \<in> set (p @ s). is_space c" by auto
  then have "strip (p @ s) = []" by (simp only: strip_eq_Nil_iff)
  moreover from True have "strip s = []" by (simp only: strip_eq_Nil_iff)
  ultimately show ?thesis by simp
next
  case False
  then obtain x where "x \<in> set s" "\<not> is_space x" by blast
  then have "rstrip (p @ s) = p @ rstrip s" by (rule rstrip_append_spaces_left)
  moreover from assms have "dropWhile is_space (p @ rstrip s) = dropWhile is_space (rstrip s)"
    by (intro dropWhile_append2) simp
  ultimately show ?thesis by (simp add: strip_def lstrip_def)
qed

lemma strip_lstrip: "strip (lstrip s) = strip s"
proof -
  have "s = takeWhile is_space s @ lstrip s" by (simp add: lstrip_def)
  then have "strip s = strip (takeWhile is_space s @ lstrip s)" by simp
  also have "\<dots> = strip (lstrip s)"
    by (rule strip_append_spaces_left) (auto dest: set_takeWhileD)
  finally show ?thesis by simp
qed

lemma strip_book_tail:
  assumes "tail \<noteq> []" and "\<forall>c \<in> set tail. \<not> is_space c"
  shows "strip (b @ CHR '' '' # tail)
           = (if strip b = [] then tail else lstrip b @ CHR '' '' # tail)"
proof -
  from assms have l: "\<not> is_space (last tail)" by simp
  from assms have h: "\<not> is_space (hd tail)" by simp
  have r: "rstrip (b @ CHR '' '' # tail) = b @ CHR '' '' # tail"
    using rstrip_append_unchanged[OF assms(1) l, of "b @ [CHR '' '']"] by simp
  have sp: "is_space CHR '' ''" by (simp add: is_space_def)
  show ?thesis
  proof (cases "strip b = []")
    case True
    then have "\<forall>c \<in> set (b @ [CHR '' '']). is_space c"
      using sp by (simp add: strip_eq_Nil_iff)
    then have "dropWhile is_space ((b @ [CHR '' '']) @ tail) = dropWhile is_space tail"
      by (intro dropWhile_append2) blast
    also have "\<dots> = tail" using assms(1) h by (cases tail) simp_all
    finally show ?thesis using True r by (simp add: strip_def lstrip_def)
  next
    case False
    then obtain x where x: "x \<in> set b" "\<not> is_space x"
      by (auto simp: strip_eq_Nil_iff)
    then have "dropWhile is_space (b @ CHR '' '' # tail)
                 = dropWhile is_space b @ CHR '' '' # tail"
      by (rule dropWhile_append1)
    with False r show ?thesis by (simp add: strip_def lstrip_def)
  qed
qed

lemma parse_book_tail:
  assumes "tail \<noteq> []" and "\<forall>c \<in> set tail. \<not> is_space c" and "CHR '' '' \<notin> set tail"
  shows "search_parse_reference (b @ CHR '' '' # tail)
           = (if strip b = [] then None else parse_tail py_int (strip b) tail)"
    and "parse_reference_range (b @ CHR '' '' # tail)
           = (if strip b = [] then None else parse_tail (\<lambda>c. py_int (strip c)) (strip b) tail)"
proof -
  show "search_parse_reference (b @ CHR '' '' # tail)
           = (if strip b = [] then None else parse_tail py_int (strip b) tail)"
  proof (cases "strip b = []")
    case True
    with strip_book_tail[OF assms(1,2), of b] have "strip (b @ CHR '' '' # tail) = tail" by simp
    with assms(3) have "CHR '' '' \<notin> set (strip (b @ CHR '' '' # tail))" by simp
    from search_parse_reference_no_space[OF this] True show ?thesis by simp
  next
    case False
    with strip_book_tail[OF assms(1,2), of b]
    have "strip (b @ CHR '' '' # tail) = lstrip b @ CHR '' '' # tail" by simp
    from search_parse_reference_split[OF this assms(3)] False show ?thesis
      by (simp add: strip_lstrip strip_no_space[OF assms(1,2)])
  qed
  show "parse_reference_range (b @ CHR '' '' # tail)
           = (if strip b = [] then None else parse_tail (\<lambda>c. py_int (strip c)) (strip b) tail)"
  proof (cases "strip b = []")
    case True
    with strip_book_tail[OF assms(1,2), of b] have "strip (b @ CHR '' '' # tail) = tail" by simp
    with assms(3) have "CHR '' '' \<notin> set (strip (b @ CHR '' '' # tail))" by simp
    from parse_reference_range_no_space[OF this] True show ?thesis by simp
  next
    case False
    with strip_book_tail[OF assms(1,2), of b]
    have "strip (b @ CHR '' '' # tail) = lstrip b @ CHR '' '' # tail" by simp
    from parse_reference_range_split[OF this assms(3)] False show ?thesis
      by (simp add: strip_lstrip strip_no_space[OF assms(1,2)])
  qed
qed

lemma py_int_Nil: "py_int [] = None"
  by (simp add: py_int_def int_strip_def)

lemma strip_self_range: "strip (py_str v @ CHR ''-'' # py_str v) = py_str v @ CHR ''-'' # py_str v"
  by (rule strip_no_space) (auto simp: not_space_hyphen dest: py_str_no_space)

lemma parse_verses_single: "parse_verses (py_str v) = (if v < 0 then None else Some (v, v))"
proof (cases "v < 0")
  case True
  have "strip (py_str v) = py_str v" by (rule strip_py_str)
  also from True have "\<dots> = [] @ CHR ''-'' # digits_of (nat (- v))"
    by (simp add: py_str_def)
  finally have "strip (py_str v) = [] @ CHR ''-'' # digits_of (nat (- v))" .
  from parse_verses_hyphen[OF this] True show ?thesis by (simp add: py_int_Nil)
next
  case False
  then have "CHR ''-'' \<notin> set (py_str v)" by (simp add: py_str_hyphen_iff)
  from parse_verses_plain[OF this] False show ?thesis
    by (simp add: strip_py_str py_int_py_str)
qed

lemma parse_verses_self_range:
  "parse_verses (py_str v @ CHR ''-'' # py_str v) = (if v < 0 then None else Some (v, v))"
proof (cases "v < 0")
  case True
  have "strip (py_str v @ CHR ''-'' # py_str v) = py_str v @ CHR ''-'' # py_str v"
    by (rule strip_self_range)
  also from True have
    "\<dots> = [] @ CHR ''-'' # (digits_of (nat (- v)) @ CHR ''-'' # CHR ''-'' # digits_of (nat (- v)))"
    by (simp add: py_str_def)
  finally have "strip (py_str v @ CHR ''-'' # py_str v)
     = [] @ CHR ''-'' # (digits_of (nat (- v)) @ CHR ''-'' # CHR ''-'' # digits_of (nat (- v)))" .
  from parse_verses_hyphen[OF this] True show ?thesis by (simp add: py_int_Nil)
next
  case False
  then have n: "CHR ''-'' \<notin> set (py_str v)" by (simp add: py_str_hyphen_iff)
  from parse_verses_hyphen[OF strip_self_range n] False show ?thesis
    by (simp add: strip_py_str py_int_py_str)
qed

lemma parse_tail_decimal:
  assumes "rc (py_str c) = Some c"
  shows "parse_tail rc bk (py_str c @ CHR '':'' # py_str v)
           = (if v < 0 then None else Some (bk, c, v, v))"
    and "parse_tail rc bk (py_str c @ CHR '':'' # (py_str v @ CHR ''-'' # py_str v))
           = (if v < 0 then None else Some (bk, c, v, v))"
  by (simp_all add: parse_tail_colon[OF py_str_no_colon] assms parse_verses_single
                    parse_verses_self_range)

lemma parse_single_verse_reference:
  "search_parse_reference (b @ '' '' @ py_str c @ '':'' @ py_str v)
     = (if strip b = [] \<or> v < 0 then None else Some (strip b, c, v, v))"
  "parse_reference_range (b @ '' '' @ py_str c @ '':'' @ py_str v)
     = (if strip b = [] \<or> v < 0 then None else Some (strip b, c, v, v))"
proof -
  let ?tail = "py_str c @ CHR '':'' # py_str v"
  have ne: "?tail \<noteq> []" by simp
  have ns: "\<forall>x \<in> set ?tail. \<not> is_space x"
    by (auto simp: not_space_colon dest: py_str_no_space)
  have nb: "CHR '' '' \<notin> set ?tail" by (simp add: py_str_no_blank)
  have s: "parse_tail py_int (strip b) ?tail = (if v < 0 then None else Some (strip b, c, v, v))"
    by (rule parse_tail_decimal) (rule py_int_py_str)
  have r: "parse_tail (\<lambda>c. py_int (strip c)) (strip b) ?tail
             = (if v < 0 then None else Some (strip b, c, v, v))"
    by (rule parse_tail_decimal) (simp add: strip_py_str py_int_py_str)
  from s parse_book_tail(1)[OF ne ns nb, of b]
  show "search_parse_reference (b @ '' '' @ py_str c @ '':'' @ py_str v)
     = (if strip b = [] \<or> v < 0 then None else Some (strip b, c, v, v))"
    by simp
  from r parse_book_tail(2)[OF ne ns nb, of b]
  show "parse_reference_range (b @ '' '' @ py_str c @ '':'' @ py_str v)
     = (if strip b = [] \<or> v < 0 then None else Some (strip b, c, v, v))"
    by simp
qed

lemma parse_self_range_reference:
  "search_parse_reference (b @ '' '' @ py_str c @ '':'' @ py_str v @ ''-'' @ py_str v)
     = (if strip b = [] \<or> v < 0 then None else Some (strip b, c, v, v))"
  "parse_reference_range (b @ '' '' @ py_str c @ '':'' @ py_str v @ ''-'' @ py_str v)
     = (if strip b = [] \<or> v < 0 then None else Some (strip b, c, v, v))"
proof -
  let ?tail = "py_str c @ CHR '':'' # (py_str v @ CHR ''-'' # py_str v)"
  have ne: "?tail \<noteq> []" by simp
  have ns: "\<forall>x \<in> set ?tail. \<not> is_space x"
    by (auto simp: not_space_colon not_space_hyphen dest: py_str_no_space)
  have nb: "CHR '' '' \<notin> set ?tail" by (simp add: py_str_no_blank)
  have s: "parse_tail py_int (strip b) ?tail = (if v < 0 then None else Some (strip b, c, v, v))"
    by (rule parse_tail_decimal) (rule py_int_py_str)
  have r: "parse_tail (\<lambda>c. py_int (strip c)) (strip b) ?tail
             = (if v < 0 then None else Some (strip b, c, v, v))"
    by (rule parse_tail_decimal) (simp add: strip_py_str py_int_py_str)
  from s parse_book_tail(1)[OF ne ns nb, of b]
  show "search_parse_reference (b @ '' '' @ py_str c @ '':'' @ py_str v @ ''-'' @ py_str v)
     = (if strip b = [] \<or> v < 0 then None else Some (strip b, c, v, v))"
    by simp
  from r parse_book_tail(2)[OF ne ns nb, of b]
  show "parse_reference_range (b @ '' '' @ py_str c @ '':'' @ py_str v @ ''-'' @ py_str v)
     = (if strip b = [] \<or> v < 0 then None else Some (strip b, c, v, v))"
    by simp
qed

subsection \<open>Single verses and ranges of one verse\<close>

text \<open>
  Claim C4. \<^verbatim>\<open>"John 3:16-18"\<close> parses to John, chapter 3, verses 16 to 18, and
  \<^verbatim>\<open>"John 3:16"\<close> to John, chapter 3, verses 16 to 16. For every book string \<open>b\<close>, chapter
  \<open>c\<close> and verse \<open>v\<close> the references \<^verbatim>\<open>"b c:v"\<close> and \<^verbatim>\<open>"b c:v-v"\<close>, with the integers written
  in decimal, parse to the same result, with each of the two range parsers; when \<open>b\<close> is
  not blank and \<open>v\<close> is not negative, the result is the stripped book, \<open>c\<close>, and \<open>v\<close> twice,
  an inclusive range of exactly one verse.
\<close>

theorem single_verse_equals_self_range:
  "search_parse_reference ''John 3:16-18'' = Some (''John'', 3, 16, 18)
   \<and> search_parse_reference ''John 3:16'' = Some (''John'', 3, 16, 16)
   \<and> parse_reference_range ''John 3:16-18'' = Some (''John'', 3, 16, 18)
   \<and> parse_reference_range ''John 3:16'' = Some (''John'', 3, 16, 16)
   \<and> search_parse_reference (b @ '' '' @ py_str c @ '':'' @ py_str v)
       = search_parse_reference (b @ '' '' @ py_str c @ '':'' @ py_str v @ ''-'' @ py_str v)
   \<and> parse_reference_range (b @ '' '' @ py_str c @ '':'' @ py_str v)
       = parse_reference_range (b @ '' '' @ py_str c @ '':'' @ py_str v @ ''-'' @ py_str v)
   \<and> (strip b \<noteq> [] \<and> 0 \<le> v
        \<longrightarrow> search_parse_reference (b @ '' '' @ py_str c @ '':'' @ py_str v)
              = Some (strip b, c, v, v)
          \<and> parse_reference_range (b @ '' '' @ py_str c @ '':'' @ py_str v)
              = Some (strip b, c, v, v))
   \<and> (\<forall>book chapter v_start v_end.
         search_parse_reference (b @ '' '' @ py_str c @ '':'' @ py_str v)
           = Some (book, chapter, v_start, v_end)
         \<or> parse_reference_range (b @ '' '' @ py_str c @ '':'' @ py_str v)
           = Some (book, chapter, v_start, v_end)
       \<longrightarrow> chapter = c \<and> v_start = v \<and> v_end = v \<and> [v_start..v_end] = [v])"
proof -
  have e1: "search_parse_reference ''John 3:16-18'' = Some (''John'', 3, 16, 18)" by code_simp
  have e2: "search_parse_reference ''John 3:16'' = Some (''John'', 3, 16, 16)" by code_simp
  have e3: "parse_reference_range ''John 3:16-18'' = Some (''John'', 3, 16, 18)" by code_simp
  have e4: "parse_reference_range ''John 3:16'' = Some (''John'', 3, 16, 16)" by code_simp
  have a: "search_parse_reference (b @ '' '' @ py_str c @ '':'' @ py_str v)
       = search_parse_reference (b @ '' '' @ py_str c @ '':'' @ py_str v @ ''-'' @ py_str v)"
    by (simp only: parse_single_verse_reference parse_self_range_reference)
  have b: "parse_reference_range (b @ '' '' @ py_str c @ '':'' @ py_str v)
       = parse_reference_range (b @ '' '' @ py_str c @ '':'' @ py_str v @ ''-'' @ py_str v)"
    by (simp only: parse_single_verse_reference parse_self_range_reference)
  have c: "strip b \<noteq> [] \<and> 0 \<le> v
        \<longrightarrow> search_parse_reference (b @ '' '' @ py_str c @ '':'' @ py_str v)
              = Some (strip b, c, v, v)
          \<and> parse_reference_range (b @ '' '' @ py_str c @ '':'' @ py_str v)
              = Some (strip b, c, v, v)"
    by (simp only: parse_single_verse_reference) auto
  have d: "\<forall>book chapter v_start v_end.
         search_parse_reference (b @ '' '' @ py_str c @ '':'' @ py_str v)
           = Some (book, chapter, v_start, v_end)
         \<or> parse_reference_range (b @ '' '' @ py_str c @ '':'' @ py_str v)
           = Some (book, chapter, v_start, v_end)
       \<longrightarrow> chapter = c \<and> v_start = v \<and> v_end = v \<and> [v_start..v_end] = [v]"
    by (simp only: parse_single_verse_reference) (simp split: if_splits)
  show ?thesis by (intro conjI e1 e2 e3 e4 a b c d)
qed

theorem single_verse_equals_self_range_witness:
  "strip ''1 John'' \<noteq> [] \<and> (0::int) \<le> 7
   \<and> ''1 John'' @ '' '' @ py_str 5 @ '':'' @ py_str 7 = ''1 John 5:7''
   \<and> ''1 John'' @ '' '' @ py_str 5 @ '':'' @ py_str 7 @ ''-'' @ py_str 7 = ''1 John 5:7-7''
   \<and> search_parse_reference ''1 John 5:7'' = Some (''1 John'', 5, 7, 7)
   \<and> parse_reference_range ''1 John 5:7'' = Some (''1 John'', 5, 7, 7)
   \<and> search_parse_reference ''1 John 5:7-7'' = Some (''1 John'', 5, 7, 7)
   \<and> parse_reference_range ''1 John 5:7-7'' = Some (''1 John'', 5, 7, 7)"
proof -
  have s: "strip ''1 John'' = ''1 John''" by code_simp
  have f1: "''1 John'' @ '' '' @ py_str 5 @ '':'' @ py_str 7 = ''1 John 5:7''" by code_simp
  have f2: "''1 John'' @ '' '' @ py_str 5 @ '':'' @ py_str 7 @ ''-'' @ py_str 7 = ''1 John 5:7-7''"
    by code_simp
  note t = single_verse_equals_self_range[of "''1 John''" 5 7]
  from s have h: "strip ''1 John'' \<noteq> [] \<and> (0::int) \<le> 7" by simp
  have imp: "strip ''1 John'' \<noteq> [] \<and> 0 \<le> (7::int)
        \<longrightarrow> search_parse_reference (''1 John'' @ '' '' @ py_str 5 @ '':'' @ py_str 7)
              = Some (strip ''1 John'', 5, 7, 7)
          \<and> parse_reference_range (''1 John'' @ '' '' @ py_str 5 @ '':'' @ py_str 7)
              = Some (strip ''1 John'', 5, 7, 7)"
    using t by (elim conjE)
  from imp h have
    "search_parse_reference (''1 John'' @ '' '' @ py_str 5 @ '':'' @ py_str 7)
       = Some (strip ''1 John'', 5, 7, 7)"
    "parse_reference_range (''1 John'' @ '' '' @ py_str 5 @ '':'' @ py_str 7)
       = Some (strip ''1 John'', 5, 7, 7)"
    by simp_all
  then have r: "search_parse_reference ''1 John 5:7'' = Some (''1 John'', 5, 7, 7)"
    "parse_reference_range ''1 John 5:7'' = Some (''1 John'', 5, 7, 7)"
    unfolding f1 s by simp_all
  have eq1: "search_parse_reference (''1 John'' @ '' '' @ py_str 5 @ '':'' @ py_str 7)
       = search_parse_reference
           (''1 John'' @ '' '' @ py_str 5 @ '':'' @ py_str 7 @ ''-'' @ py_str 7)"
    using t by (elim conjE)
  have eq2: "parse_reference_range (''1 John'' @ '' '' @ py_str 5 @ '':'' @ py_str 7)
       = parse_reference_range
           (''1 John'' @ '' '' @ py_str 5 @ '':'' @ py_str 7 @ ''-'' @ py_str 7)"
    using t by (elim conjE)
  from eq1 eq2 r have r2: "search_parse_reference ''1 John 5:7-7'' = Some (''1 John'', 5, 7, 7)"
    "parse_reference_range ''1 John 5:7-7'' = Some (''1 John'', 5, 7, 7)"
    unfolding f1 f2 by simp_all
  from h f1 f2 r r2 show ?thesis by (intro conjI) simp_all
qed

end
